theory Spec2Isabelle
  imports Main "HOL-Library.Product_Lexorder"
begin

section \<open>Terminal driver: key names and the key decoder (libterm.py)\<close>

text \<open>
  Python strings are modelled as \<^typ>\<open>string\<close>. The class \<open>Keys\<close> is a set of string
  constants; a key event is the string \<open>read_key\<close> returns.
\<close>

definition Keys_UP :: string where "Keys_UP = ''UP_ARROW''"
definition Keys_DOWN :: string where "Keys_DOWN = ''DOWN_ARROW''"
definition Keys_LEFT :: string where "Keys_LEFT = ''LEFT_ARROW''"
definition Keys_RIGHT :: string where "Keys_RIGHT = ''RIGHT_ARROW''"
definition Keys_F1 :: string where "Keys_F1 = ''F1''"
definition Keys_F2 :: string where "Keys_F2 = ''F2''"
definition Keys_F3 :: string where "Keys_F3 = ''F3''"
definition Keys_F4 :: string where "Keys_F4 = ''F4''"
definition Keys_F5 :: string where "Keys_F5 = ''F5''"
definition Keys_F6 :: string where "Keys_F6 = ''F6''"
definition Keys_F7 :: string where "Keys_F7 = ''F7''"
definition Keys_F8 :: string where "Keys_F8 = ''F8''"
definition Keys_F9 :: string where "Keys_F9 = ''F9''"
definition Keys_F10 :: string where "Keys_F10 = ''F10''"
definition Keys_F11 :: string where "Keys_F11 = ''F11''"
definition Keys_F12 :: string where "Keys_F12 = ''F12''"
definition Keys_HOME :: string where "Keys_HOME = ''HOME''"
definition Keys_END :: string where "Keys_END = ''END''"
definition Keys_PAGE_UP :: string where "Keys_PAGE_UP = ''PAGE_UP''"
definition Keys_PAGE_DOWN :: string where "Keys_PAGE_DOWN = ''PAGE_DOWN''"
definition Keys_INSERT :: string where "Keys_INSERT = ''INSERT''"
definition Keys_DELETE :: string where "Keys_DELETE = ''DELETE''"
definition Keys_ESC :: string where "Keys_ESC = ''ESC''"
definition Keys_TAB :: string where "Keys_TAB = ''TAB''"
definition Keys_SHIFT_TAB :: string where "Keys_SHIFT_TAB = ''SHIFT_TAB''"
definition Keys_ENTER :: string where "Keys_ENTER = ''ENTER''"
definition Keys_BACKSPACE :: string where "Keys_BACKSPACE = ''BACKSPACE''"
definition Keys_SPACE :: string where "Keys_SPACE = '' ''"

lemmas Keys_defs =
  Keys_UP_def Keys_DOWN_def Keys_LEFT_def Keys_RIGHT_def
  Keys_F1_def Keys_F2_def Keys_F3_def Keys_F4_def Keys_F5_def Keys_F6_def
  Keys_F7_def Keys_F8_def Keys_F9_def Keys_F10_def Keys_F11_def Keys_F12_def
  Keys_HOME_def Keys_END_def Keys_PAGE_UP_def Keys_PAGE_DOWN_def
  Keys_INSERT_def Keys_DELETE_def Keys_ESC_def Keys_TAB_def Keys_SHIFT_TAB_def
  Keys_ENTER_def Keys_BACKSPACE_def Keys_SPACE_def

text \<open>The escape-introducer byte \<open>\x1b\<close> and the single-byte specials.\<close>

definition esc :: char where "esc = CHR 0x1B"
definition del :: char where "del = CHR 0x7F"
definition newline :: char where "newline = CHR 0x0A"
definition tab :: char where "tab = CHR 0x09"

text \<open>
  \<open>Terminal.escape_sequences\<close>: the dictionary of known multi-byte sequences, in the
  order of the source. All keys are distinct, so the association list read with
  \<^const>\<open>map_of\<close> is the dictionary.
\<close>

definition escape_sequences :: "(string \<times> string) list" where
  "escape_sequences =
    [(esc # ''[A'', Keys_UP), (esc # ''[B'', Keys_DOWN),
     (esc # ''[C'', Keys_RIGHT), (esc # ''[D'', Keys_LEFT),
     (esc # ''[Z'', Keys_SHIFT_TAB),
     (esc # ''OA'', Keys_UP), (esc # ''OB'', Keys_DOWN),
     (esc # ''OC'', Keys_RIGHT), (esc # ''OD'', Keys_LEFT),
     (esc # ''OP'', Keys_F1), (esc # ''OQ'', Keys_F2),
     (esc # ''OR'', Keys_F3), (esc # ''OS'', Keys_F4),
     (esc # ''[15~'', Keys_F5), (esc # ''[17~'', Keys_F6),
     (esc # ''[18~'', Keys_F7), (esc # ''[19~'', Keys_F8),
     (esc # ''[20~'', Keys_F9), (esc # ''[21~'', Keys_F10),
     (esc # ''[23~'', Keys_F11), (esc # ''[24~'', Keys_F12),
     (esc # ''[H'', Keys_HOME), (esc # ''[F'', Keys_END),
     (esc # ''[1~'', Keys_HOME), (esc # ''[4~'', Keys_END),
     (esc # ''OH'', Keys_HOME), (esc # ''OF'', Keys_END),
     (esc # ''[5~'', Keys_PAGE_UP), (esc # ''[6~'', Keys_PAGE_DOWN),
     (esc # ''[2~'', Keys_INSERT), (esc # ''[3~'', Keys_DELETE)]"

text \<open>
  Standard input, as the decoder sees it: the results of the successive one-character
  reads. \<open>Data c\<close> is a read that returns the character \<open>c\<close>; \<open>NoData\<close> is a read that
  returns the empty string (nothing available in non-blocking mode, or end of file);
  \<open>ReadError\<close> is a read that raises \<open>IOError\<close> or \<open>TypeError\<close>. An exhausted list
  reads as \<open>NoData\<close>.
\<close>

datatype read_result = Data char | NoData | ReadError

datatype exn = IOError | IndexError | AttributeError | OSError | SystemExit

text \<open>
  The \<open>while True\<close> loop of \<open>read_key\<close> in non-blocking mode: characters are appended to
  the sequence while reads deliver them; an empty read or a read error leaves the loop
  with what was accumulated.
\<close>

fun read_sequence :: "string \<Rightarrow> read_result list \<Rightarrow> string \<times> read_result list" where
  "read_sequence sequence [] = (sequence, [])"
| "read_sequence sequence (Data next_char # rs) = read_sequence (sequence @ [next_char]) rs"
| "read_sequence sequence (NoData # rs) = (sequence, rs)"
| "read_sequence sequence (ReadError # rs) = (sequence, rs)"

text \<open>
  \<open>Terminal.read_key\<close>, the POSIX branch. The first read is blocking: a read error there
  is not caught and propagates. The result is the key (or the exception) and the
  remaining input.
\<close>

definition read_key :: "read_result list \<Rightarrow> (exn + string) \<times> read_result list" where
  "read_key stdin =
    (case stdin of
       [] \<Rightarrow> (Inr [], [])
     | NoData # rs \<Rightarrow> (Inr [], rs)
     | ReadError # rs \<Rightarrow> (Inl IOError, rs)
     | Data ch # rs \<Rightarrow>
         if ch = esc then
           (let (sequence, rest) = read_sequence [ch] rs in
            if sequence = [esc] then (Inr Keys_ESC, rest)
            else (case map_of escape_sequences sequence of
                    Some k \<Rightarrow> (Inr k, rest)
                  | None \<Rightarrow> (Inr sequence, rest)))
         else if ch = del then (Inr Keys_BACKSPACE, rs)
         else if ch = newline then (Inr Keys_ENTER, rs)
         else if ch = tab then (Inr Keys_TAB, rs)
         else (Inr [ch], rs))"

text \<open>A continuation read that delivers no character ends the accumulation.\<close>

fun no_continuation :: "read_result list \<Rightarrow> bool" where
  "no_continuation (Data c # rs) = False"
| "no_continuation rs = True"

fun after_stop :: "read_result list \<Rightarrow> read_result list" where
  "after_stop [] = []"
| "after_stop (r # rs) = rs"

section \<open>Composite value selectors (libtui.py)\<close>

text \<open>
  Python list subscripts: \<open>xs[i]\<close> accepts \<open>-len \<le> i < len\<close>, a negative subscript
  counting back from the end; anything else raises \<open>IndexError\<close>. \<open>py_position\<close> is the
  position a valid subscript denotes.
\<close>

definition py_position :: "nat \<Rightarrow> int \<Rightarrow> nat option" where
  "py_position len i =
    (if 0 \<le> i \<and> i < int len then Some (nat i)
     else if - int len \<le> i \<and> i < 0 then Some (nat (i + int len))
     else None)"

definition py_index :: "'a list \<Rightarrow> int \<Rightarrow> exn + 'a" where
  "py_index xs i =
    (case py_position (length xs) i of
       None \<Rightarrow> Inl IndexError
     | Some j \<Rightarrow> Inr (xs ! j))"

text \<open>
  Python's \<open>len\<close> of a string counts characters. A \<^typ>\<open>string\<close> here is the UTF-8
  byte sequence of the text, in which every character has exactly one byte that is not
  a continuation byte (\<open>0x80\<close> to \<open>0xBF\<close>).
\<close>

definition continuation_byte :: "char \<Rightarrow> bool" where
  "continuation_byte c \<longleftrightarrow> 128 \<le> (of_char c :: nat) \<and> (of_char c :: nat) < 192"

definition py_len :: "string \<Rightarrow> nat" where
  "py_len t = length (filter (\<lambda>c. \<not> continuation_byte c) t)"

subsection \<open>IntInput\<close>

text \<open>
  The fields of \<open>IntInput\<close> that \<open>process_input\<close> reads or writes. \<open>format_str\<close> is
  held as the function that renders a value with that format specification.
\<close>

record int_input =
  ii_value :: int
  ii_min :: "int option"
  ii_max :: "int option"
  ii_format_str :: "int \<Rightarrow> string"
  ii_text :: string
  ii_is_focused :: bool
  ii_being_edited :: bool

definition IntInput_update_text :: "int_input \<Rightarrow> int_input" where
  "IntInput_update_text w = w\<lparr>ii_text := ii_format_str w (ii_value w)\<rparr>"

definition IntInput_process_input :: "int_input \<Rightarrow> string \<Rightarrow> int_input \<times> bool" where
  "IntInput_process_input w key =
    (if \<not> ii_is_focused w then (w, False)
     else if ii_being_edited w then
       (if key = Keys_UP then
          (let w1 = w\<lparr>ii_value := ii_value w + 1\<rparr>;
               w2 = (case ii_max w1 of
                       Some m \<Rightarrow> if ii_value w1 > m then w1\<lparr>ii_value := m\<rparr> else w1
                     | None \<Rightarrow> w1)
           in (IntInput_update_text w2, True))
        else if key = Keys_DOWN then
          (let w1 = w\<lparr>ii_value := ii_value w - 1\<rparr>;
               w2 = (case ii_min w1 of
                       Some m \<Rightarrow> if ii_value w1 < m then w1\<lparr>ii_value := m\<rparr> else w1
                     | None \<Rightarrow> w1)
           in (IntInput_update_text w2, True))
        else if key = Keys_ENTER \<or> key = Keys_ESC then (w\<lparr>ii_being_edited := False\<rparr>, True)
        else (w, True))
     else if key = Keys_ENTER then (w\<lparr>ii_being_edited := True\<rparr>, True)
     else (w, False))"

subsection \<open>DateInput\<close>

record date_input =
  di_day :: int
  di_month :: int
  di_year :: int
  di_focus_index :: int
  di_is_focused :: bool
  di_being_edited :: bool

definition n_dias_mes :: "int list" where
  "n_dias_mes = [31, 28, 31, 30, 31, 30, 31, 31, 30, 31, 30, 31]"

definition bissexto :: "int \<Rightarrow> bool" where
  "bissexto year = (year mod 4 = 0 \<and> (year mod 100 \<noteq> 0 \<or> year mod 400 = 0))"

definition max_day_in_month :: "int \<Rightarrow> int \<Rightarrow> exn + int" where
  "max_day_in_month month year =
    (if month = 2 then Inr (if bissexto year then 29 else 28)
     else py_index n_dias_mes (month - 1))"

text \<open>
  The re-clamping shared by the month and year branches:
  \<open>max_day = self._max_day_in_month(self.month, self.year); if self.day > max_day: self.day = max_day\<close>.
\<close>

definition clamp_day :: "date_input \<Rightarrow> exn + date_input" where
  "clamp_day w =
    (case max_day_in_month (di_month w) (di_year w) of
       Inl e \<Rightarrow> Inl e
     | Inr max_day \<Rightarrow> Inr (if di_day w > max_day then w\<lparr>di_day := max_day\<rparr> else w))"

definition consumed :: "exn + date_input \<Rightarrow> exn + date_input \<times> bool" where
  "consumed r = (case r of Inl e \<Rightarrow> Inl e | Inr w \<Rightarrow> Inr (w, True))"

definition DateInput_process_input :: "date_input \<Rightarrow> string \<Rightarrow> exn + date_input \<times> bool" where
  "DateInput_process_input w key =
    (if \<not> di_is_focused w then Inr (w, False)
     else if di_being_edited w then
       (if key = Keys_UP then
          (if di_focus_index w = 0 then
             (let w1 = w\<lparr>di_day := di_day w + 1\<rparr> in
              consumed (case max_day_in_month (di_month w1) (di_year w1) of
                 Inl e \<Rightarrow> Inl e
               | Inr max_day \<Rightarrow> Inr (if di_day w1 > max_day then w1\<lparr>di_day := 1\<rparr> else w1)))
           else if di_focus_index w = 1 then
             (let w1 = w\<lparr>di_month := di_month w + 1\<rparr>;
                  w2 = (if di_month w1 > 12 then w1\<lparr>di_month := 1\<rparr> else w1)
              in consumed (clamp_day w2))
           else if di_focus_index w = 2 then
             consumed (clamp_day (w\<lparr>di_year := di_year w + 1\<rparr>))
           else Inr (w, True))
        else if key = Keys_DOWN then
          (if di_focus_index w = 0 then
             (let w1 = w\<lparr>di_day := di_day w - 1\<rparr> in
              if di_day w1 < 1 then
                consumed (case max_day_in_month (di_month w1) (di_year w1) of
                   Inl e \<Rightarrow> Inl e
                 | Inr max_day \<Rightarrow> Inr (w1\<lparr>di_day := max_day\<rparr>))
              else Inr (w1, True))
           else if di_focus_index w = 1 then
             (let w1 = w\<lparr>di_month := di_month w - 1\<rparr>;
                  w2 = (if di_month w1 < 1 then w1\<lparr>di_month := 12\<rparr> else w1)
              in consumed (clamp_day w2))
           else if di_focus_index w = 2 then
             (let w1 = w\<lparr>di_year := di_year w - 1\<rparr>;
                  w2 = (if di_year w1 < 1 then w1\<lparr>di_year := 1\<rparr> else w1)
              in consumed (clamp_day w2))
           else Inr (w, True))
        else if key = Keys_ESC then Inr (w\<lparr>di_being_edited := False\<rparr>, True)
        else if key = Keys_ENTER then Inr (w\<lparr>di_being_edited := False\<rparr>, True)
        else Inr (w, False))
     else
       (if key = Keys_LEFT then Inr (w\<lparr>di_focus_index := (di_focus_index w - 1) mod 3\<rparr>, True)
        else if key = Keys_RIGHT then Inr (w\<lparr>di_focus_index := (di_focus_index w + 1) mod 3\<rparr>, True)
        else if key = Keys_ENTER then Inr (w\<lparr>di_being_edited := True\<rparr>, True)
        else Inr (w, False)))"

text \<open>
  The calendar in the words of the specification, written out month by month and
  independently of the table \<open>n_dias_mes\<close>: February has 29 days iff the year is
  divisible by 4 and (not divisible by 100 or divisible by 400), otherwise 28; April,
  June, September and November have 30 days; the other months have 31.
\<close>

definition month_length :: "int \<Rightarrow> int \<Rightarrow> int" where
  "month_length month year =
    (if month = 2
       then (if year mod 4 = 0 \<and> (year mod 100 \<noteq> 0 \<or> year mod 400 = 0) then 29 else 28)
     else if month = 4 \<or> month = 6 \<or> month = 9 \<or> month = 11 then 30
     else 31)"

text \<open>
  A date widget moved to the given month and year, with its day re-clamped to that
  month's length.
\<close>

definition reclamped :: "date_input \<Rightarrow> int \<Rightarrow> int \<Rightarrow> date_input" where
  "reclamped w month year =
    w\<lparr>di_day := min (di_day w) (month_length month year), di_month := month, di_year := year\<rparr>"

section \<open>Widgets and the scrolling list (libtui.py)\<close>

text \<open>
  The fields of the base class \<open>Widget\<close>. Positions and sizes are integers (the
  \<open>None\<close> placeholders of \<open>Widget.__init__\<close> are replaced by every concrete widget's
  constructor). Subclasses are record extensions.
\<close>

record widget =
  w_x :: int
  w_y :: int
  w_width :: int
  w_height :: int
  is_focused :: bool
  is_focusable :: bool

text \<open>\<open>Widget.process_input\<close> returns \<open>None\<close> on every path: the key is not consumed.\<close>

definition Widget_process_input :: "'a widget_scheme \<Rightarrow> string \<Rightarrow> bool" where
  "Widget_process_input w key = False"

subsection \<open>VerticalList\<close>

record 'c vertical_list = widget +
  vl_children :: "'c widget_scheme list"
  scroll_offset :: int
  focus_index_raw :: int

text \<open>The property \<open>focus_index\<close>: getter and setter over the field \<open>_focus_index\<close>.\<close>

definition focus_index :: "'c vertical_list \<Rightarrow> int" where
  "focus_index vl =
    (if length (vl_children vl) = 0 then 0
     else min (focus_index_raw vl) (int (length (vl_children vl)) - 1))"

definition set_focus_index :: "'c vertical_list \<Rightarrow> int \<Rightarrow> 'c vertical_list" where
  "set_focus_index vl v =
    (if length (vl_children vl) = 0 then vl\<lparr>focus_index_raw := 0\<rparr>
     else vl\<lparr>focus_index_raw := max 0 (min v (int (length (vl_children vl)) - 1))\<rparr>)"

text \<open>\<open>self.children[i].is_focused = b\<close>, with Python's indexing.\<close>

definition set_child_focused ::
  "'c widget_scheme list \<Rightarrow> int \<Rightarrow> bool \<Rightarrow> exn + 'c widget_scheme list" where
  "set_child_focused cs i b =
    (case py_position (length cs) i of
       None \<Rightarrow> Inl IndexError
     | Some j \<Rightarrow> Inr (cs[j := (cs ! j)\<lparr>is_focused := b\<rparr>]))"

definition ensure_visible :: "'c vertical_list \<Rightarrow> 'c vertical_list" where
  "ensure_visible vl =
    (if focus_index vl < scroll_offset vl then vl\<lparr>scroll_offset := focus_index vl\<rparr>
     else if focus_index vl \<ge> scroll_offset vl + w_height vl - 2
       then vl\<lparr>scroll_offset := focus_index vl - (w_height vl - 3)\<rparr>
     else vl)"

text \<open>\<open>VerticalList._move_focus\<close>.\<close>

definition VerticalList_move_focus :: "'c vertical_list \<Rightarrow> int \<Rightarrow> exn + 'c vertical_list" where
  "VerticalList_move_focus vl delta =
    (if vl_children vl = [] then Inr vl
     else
       (let current_index = focus_index vl in
        case set_child_focused (vl_children vl) current_index False of
          Inl e \<Rightarrow> Inl e
        | Inr cs1 \<Rightarrow>
            (let vl1 = vl\<lparr>vl_children := cs1\<rparr>;
                 vl2 = set_focus_index vl1
                         ((current_index + delta) mod int (length (vl_children vl1)))
             in case set_child_focused (vl_children vl2) (focus_index vl2) True of
                  Inl e \<Rightarrow> Inl e
                | Inr cs2 \<Rightarrow> Inr (ensure_visible (vl2\<lparr>vl_children := cs2\<rparr>)))))"

text \<open>
  \<open>VerticalList.process_input\<close>. The children are the labels the screens add; a label
  inherits \<open>Widget.process_input\<close>.
\<close>

definition VerticalList_process_input ::
  "'c vertical_list \<Rightarrow> string \<Rightarrow> exn + 'c vertical_list \<times> bool" where
  "VerticalList_process_input vl key =
    (if \<not> is_focused vl then Inr (vl, False)
     else if key = Keys_UP then
       (case VerticalList_move_focus vl (- 1) of Inl e \<Rightarrow> Inl e | Inr vl' \<Rightarrow> Inr (vl', True))
     else if key = Keys_DOWN then
       (case VerticalList_move_focus vl 1 of Inl e \<Rightarrow> Inl e | Inr vl' \<Rightarrow> Inr (vl', True))
     else if vl_children vl \<noteq> [] then
       (case py_index (vl_children vl) (focus_index vl) of
          Inl e \<Rightarrow> Inl e
        | Inr selected_child \<Rightarrow> Inr (vl, Widget_process_input selected_child key))
     else Inr (vl, False))"

text \<open>\<open>VerticalList.__init__\<close>, before any child is added.\<close>

definition VerticalList_init :: "int \<Rightarrow> int \<Rightarrow> int \<Rightarrow> int \<Rightarrow> 'c vertical_list" where
  "VerticalList_init x y width height =
    \<lparr>w_x = x, w_y = y, w_width = width, w_height = height,
     is_focused = False, is_focusable = True,
     vl_children = [], scroll_offset = 0, focus_index_raw = 0\<rparr>"

definition add_child :: "'c vertical_list \<Rightarrow> 'c widget_scheme \<Rightarrow> 'c vertical_list" where
  "add_child vl w = vl\<lparr>vl_children := vl_children vl @ [w]\<rparr>"

subsection \<open>Concrete widgets used in the evaluations below\<close>

definition int_input_at :: "int \<Rightarrow> int_input" where
  "int_input_at v =
    \<lparr>ii_value = v, ii_min = Some 0, ii_max = Some 5, ii_format_str = (\<lambda>v. []),
     ii_text = [], ii_is_focused = True, ii_being_edited = True\<rparr>"

definition date_input_at :: "int \<Rightarrow> int \<Rightarrow> int \<Rightarrow> int \<Rightarrow> date_input" where
  "date_input_at d m y i =
    \<lparr>di_day = d, di_month = m, di_year = y, di_focus_index = i,
     di_is_focused = True, di_being_edited = True\<rparr>"

definition plain_child :: widget where
  "plain_child =
    \<lparr>w_x = 1, w_y = 1, w_width = 1, w_height = 1, is_focused = False, is_focusable = False\<rparr>"

text \<open>A focused list of the given height over \<open>n\<close> children, with the given scroll
  offset and stored selection index.\<close>

definition list_of :: "int \<Rightarrow> nat \<Rightarrow> int \<Rightarrow> int \<Rightarrow> unit vertical_list" where
  "list_of height n offset idx =
    \<lparr>w_x = 3, w_y = 3, w_width = 20, w_height = height,
     is_focused = True, is_focusable = True,
     vl_children = replicate n plain_child, scroll_offset = offset, focus_index_raw = idx\<rparr>"

section \<open>Domain data and screen kinds (libgerenciador.py, screens.py)\<close>

datatype SCREENS =
  LIST_SELECTION | CREATELIST | EDIT_LIST | CREATETASK | TASK_DETAIL | EDIT_TASK
  | SEARCH_INPUT | SEARCH_RESULTS | FILTER_OPTIONS | TASK_VIEW | TAG_INPUT

text \<open>
  A task and a task list as the task manager holds them. Of a task only the fields
  that the operations modelled here read are kept (\<open>nota\<close>, \<open>data\<close>, \<open>tags\<close>,
  \<open>prioridade\<close> and \<open>repeticao\<close> are left out).
\<close>

record tarefa =
  tarefa_id :: int
  tarefa_titulo :: string
  concluida :: bool

record lista =
  lista_id :: int
  titulo :: string
  tarefas :: "tarefa list"

text \<open>\<open>GerenciadorTarefas.remover_lista_de_tarefas\<close> (the returned flag is not used by
  the callers modelled here) and \<open>remover_tarefas_concluidas\<close>.\<close>

definition remover_lista_de_tarefas :: "lista list \<Rightarrow> int \<Rightarrow> lista list" where
  "remover_lista_de_tarefas ls i =
    (if length ls \<le> 1 then ls else filter (\<lambda>l. lista_id l \<noteq> i) ls)"

definition remover_tarefas_concluidas :: "lista list \<Rightarrow> lista list" where
  "remover_tarefas_concluidas ls =
    map (\<lambda>l. l\<lparr>tarefas := filter (\<lambda>t. \<not> concluida t) (tarefas l)\<rparr>) ls"

text \<open>The second argument of \<open>push_screen_stack\<close>: nothing, a task list, or a dictionary.\<close>

datatype push_data = PushNone | PushLista lista | PushDict "(string \<times> lista) list"

section \<open>The screen: tab order, focus and directional navigation (libtui.py)\<close>

text \<open>
  Widgets are objects: a screen's \<open>children\<close> list holds references, focus is changed by
  assigning to a widget's field, and \<open>is not\<close> and \<open>list.index\<close> compare identities. So a
  screen is modelled over a store: \<open>heap\<close> maps the address of a widget to its fields,
  and lists of widgets are lists of addresses.

  \<open>tab_order\<close> models the override of \<open>get_focusable_widgets\<close> that the screens of the
  application define (an explicit list of their widgets, for example
  \<open>ListSelectionScreen.get_focusable_widgets\<close>): \<open>None\<close> is the base class rule, all
  focusable children in insertion order. \<open>scr_focus_index\<close> is the attribute
  \<open>focus_index\<close>, absent until \<open>set_focus_by_index\<close> first assigns it. \<open>app_calls\<close>
  records the calls the screen makes on \<open>TUIApplication.current_application\<close>, oldest
  first.
\<close>

type_synonym addr = nat

datatype app_call = PopScreenStack | PushScreenStack SCREENS push_data

record screen =
  heap :: "addr \<Rightarrow> widget"
  children :: "addr list"
  tab_order :: "addr list option"
  scr_focus_index :: "int option"
  app_calls :: "app_call list"

definition TUIScreen_init :: "(addr \<Rightarrow> widget) \<Rightarrow> screen" where
  "TUIScreen_init h =
    \<lparr>heap = h, children = [], tab_order = None, scr_focus_index = None, app_calls = []\<rparr>"

definition get_focusable_widgets :: "'a screen_scheme \<Rightarrow> addr list" where
  "get_focusable_widgets s =
    (case tab_order s of
       Some ws \<Rightarrow> ws
     | None \<Rightarrow> filter (\<lambda>w. is_focusable (heap s w)) (children s))"

definition get_focused_widget :: "'a screen_scheme \<Rightarrow> addr option" where
  "get_focused_widget s = find (\<lambda>w. is_focused (heap s w)) (get_focusable_widgets s)"

text \<open>\<open>w.is_focused = b\<close> for the widget at address \<open>w\<close>.\<close>

definition set_is_focused :: "'a screen_scheme \<Rightarrow> addr \<Rightarrow> bool \<Rightarrow> 'a screen_scheme" where
  "set_is_focused s w b = s\<lparr>heap := (heap s)(w := (heap s w)\<lparr>is_focused := b\<rparr>)\<rparr>"

definition set_focus_by_index :: "'a screen_scheme \<Rightarrow> int \<Rightarrow> 'a screen_scheme" where
  "set_focus_by_index s index =
    (let focusable_widgets = get_focusable_widgets s in
     if focusable_widgets = [] then s
     else
       (let index_to_focus = max 0 (min index (int (length focusable_widgets) - 1));
            s1 = (case get_focused_widget s of
                    Some current_focused \<Rightarrow> set_is_focused s current_focused False
                  | None \<Rightarrow> s);
            s2 = set_is_focused s1 (focusable_widgets ! nat index_to_focus) True
        in s2\<lparr>scr_focus_index := Some index_to_focus\<rparr>))"

text \<open>\<open>list.index\<close>: the first position of the element, \<open>None\<close> for \<open>ValueError\<close>.\<close>

fun list_index :: "'a list \<Rightarrow> 'a \<Rightarrow> nat option" where
  "list_index [] y = None"
| "list_index (x # xs) y = (if x = y then Some 0 else map_option Suc (list_index xs y))"

text \<open>
  \<open>TUIScreen.move_focus\<close>. With no focused widget, \<open>index(None)\<close> raises \<open>ValueError\<close>,
  which the \<open>except\<close> clause turns into index 0 or -1.
\<close>

definition move_focus :: "'a screen_scheme \<Rightarrow> int \<Rightarrow> 'a screen_scheme" where
  "move_focus s direction =
    (let focusable_widgets = get_focusable_widgets s in
     if focusable_widgets = [] then s
     else
       (let found = (case get_focused_widget s of
                       None \<Rightarrow> None
                     | Some current_focused_widget \<Rightarrow>
                         list_index focusable_widgets current_focused_widget);
            new_index = (case found of
                           Some current_index \<Rightarrow>
                             (int current_index + direction) mod int (length focusable_widgets)
                         | None \<Rightarrow> if direction = 1 then 0 else - 1)
        in set_focus_by_index s new_index))"

text \<open>
  \<open>TUIScreen._find_next_widget_in_direction\<close>. A candidate is the triple
  (primary-axis offset, perpendicular-axis offset, widget); \<open>list.sort\<close> with a key is a
  stable sort, as \<^const>\<open>sort_key\<close> is, and tuples compare lexicographically.
\<close>

definition candidate ::
  "'a screen_scheme \<Rightarrow> addr \<Rightarrow> string \<Rightarrow> addr \<Rightarrow> (int \<times> int \<times> addr) list" where
  "candidate s current_widget direction widget =
    (let dx = w_x (heap s widget) - w_x (heap s current_widget);
         dy = w_y (heap s widget) - w_y (heap s current_widget)
     in if direction = Keys_DOWN \<and> dy > 0 then [(dy, dx, widget)]
        else if direction = Keys_UP \<and> dy < 0 then [(dy, dx, widget)]
        else if direction = Keys_RIGHT \<and> dx > 0 then [(dx, dy, widget)]
        else if direction = Keys_LEFT \<and> dx < 0 then [(dx, dy, widget)]
        else [])"

definition candidate_key :: "int \<times> int \<times> addr \<Rightarrow> int \<times> int" where
  "candidate_key c = (\<bar>fst (snd c)\<bar>, \<bar>fst c\<bar>)"

definition find_next_widget_in_direction :: "'a screen_scheme \<Rightarrow> string \<Rightarrow> addr option" where
  "find_next_widget_in_direction s direction =
    (case get_focused_widget s of
       None \<Rightarrow> None
     | Some current_widget \<Rightarrow>
         (let focusable = filter (\<lambda>w. w \<noteq> current_widget) (get_focusable_widgets s);
              candidates = concat (map (candidate s current_widget direction) focusable)
          in if candidates = [] then None
             else
               (let ordered =
                      (if direction \<in> set [Keys_DOWN, Keys_UP]
                         then sort_key candidate_key candidates
                       else if direction \<in> set [Keys_LEFT, Keys_RIGHT]
                         then sort_key candidate_key candidates
                       else candidates)
                in Some (snd (snd (hd ordered))))))"

text \<open>
  \<open>TUIScreen.process_input\<close>. The call \<open>focused_widget.process_input(key)\<close> is dynamically
  dispatched on the widget's class; \<open>widget_input\<close> is that handler: it returns the
  screen after the widget (and any callback it runs) has acted, and whether the key was
  consumed, or the exception it raises.
\<close>

definition TUIScreen_process_input ::
  "('a screen_scheme \<Rightarrow> addr \<Rightarrow> string \<Rightarrow> exn + 'a screen_scheme \<times> bool)
     \<Rightarrow> 'a screen_scheme \<Rightarrow> string \<Rightarrow> exn + 'a screen_scheme" where
  "TUIScreen_process_input widget_input s key =
    (case (case get_focused_widget s of
             Some focused_widget \<Rightarrow> widget_input s focused_widget key
           | None \<Rightarrow> Inr (s, False)) of
       Inl e \<Rightarrow> Inl e
     | Inr (s1, handled) \<Rightarrow>
         if handled then Inr s1
         else
           (let s2 =
                 (if key \<in> set [Keys_UP, Keys_DOWN, Keys_LEFT, Keys_RIGHT] then
                    (case find_next_widget_in_direction s1 key of
                       Some next_widget \<Rightarrow>
                         (case list_index (get_focusable_widgets s1) next_widget of
                            Some idx \<Rightarrow> set_focus_by_index s1 (int idx)
                          | None \<Rightarrow> s1)
                     | None \<Rightarrow> s1)
                  else s1)
            in if key = Keys_TAB then Inr (move_focus s2 1)
               else if key = Keys_SHIFT_TAB then Inr (move_focus s2 (- 1))
               else if key = Keys_ESC then Inr (s2\<lparr>app_calls := app_calls s2 @ [PopScreenStack]\<rparr>)
               else Inr s2))"

text \<open>
  The invariant of the data model: the distinct widgets of the tab order that have
  focus are exactly one when the tab order is not empty, and none when it is.
\<close>

definition focused_widgets :: "'a screen_scheme \<Rightarrow> addr list" where
  "focused_widgets s =
    remdups (filter (\<lambda>w. is_focused (heap s w)) (get_focusable_widgets s))"

definition focus_invariant :: "'a screen_scheme \<Rightarrow> bool" where
  "focus_invariant s \<longleftrightarrow>
    (if get_focusable_widgets s = [] then focused_widgets s = []
     else length (focused_widgets s) = 1)"

definition at_most_one_focused :: "'a screen_scheme \<Rightarrow> bool" where
  "at_most_one_focused s \<longleftrightarrow> length (focused_widgets s) \<le> 1"

text \<open>
  A widget handler keeps the focus when it changes neither the tab order nor any
  widget's \<open>is_focused\<close> flag. Every \<open>process_input\<close> of the widget classes of libtui.py
  is of this kind: they assign only to their own value fields.
\<close>

definition keeps_focus ::
  "('a screen_scheme \<Rightarrow> addr \<Rightarrow> string \<Rightarrow> exn + 'a screen_scheme \<times> bool) \<Rightarrow> bool" where
  "keeps_focus widget_input \<longleftrightarrow>
    (\<forall>s w key s' handled. widget_input s w key = Inr (s', handled) \<longrightarrow>
       get_focusable_widgets s' = get_focusable_widgets s
       \<and> (\<forall>a. is_focused (heap s' a) = is_focused (heap s a)))"

text \<open>
  The states of a screen's lifetime. Every screen class of the application ends its
  constructor with \<open>self.set_focus_by_index(0)\<close>, called on freshly created widgets
  (\<open>Widget.__init__\<close> sets \<open>is_focused = False\<close>); the base constructor alone leaves no
  children, which is the same rule with an empty tab order. After construction the focus
  changes through \<open>set_focus_by_index\<close> and \<open>move_focus\<close>, called directly or by
  \<open>process_input\<close>.
\<close>

inductive in_lifetime :: "'a screen_scheme \<Rightarrow> bool" where
  constructed:
    "\<forall>w \<in> set (get_focusable_widgets s). \<not> is_focused (heap s w)
      \<Longrightarrow> in_lifetime (set_focus_by_index s 0)"
| after_set_focus:
    "in_lifetime s \<Longrightarrow> in_lifetime (set_focus_by_index s index)"
| after_move_focus:
    "in_lifetime s \<Longrightarrow> in_lifetime (move_focus s direction)"
| after_input:
    "in_lifetime s \<Longrightarrow> keeps_focus widget_input
      \<Longrightarrow> TUIScreen_process_input widget_input s key = Inr s' \<Longrightarrow> in_lifetime s'"

text \<open>
  The words of the directional-navigation rule: a widget lies strictly in a direction
  from the focused one, and candidates are ranked by the pair (absolute
  perpendicular-axis offset, absolute primary-axis offset), compared lexicographically.
\<close>

definition strictly_in_direction :: "'a screen_scheme \<Rightarrow> addr \<Rightarrow> string \<Rightarrow> addr \<Rightarrow> bool" where
  "strictly_in_direction s current direction w \<longleftrightarrow>
     (direction = Keys_DOWN \<and> w_y (heap s w) - w_y (heap s current) > 0)
   \<or> (direction = Keys_UP \<and> w_y (heap s w) - w_y (heap s current) < 0)
   \<or> (direction = Keys_RIGHT \<and> w_x (heap s w) - w_x (heap s current) > 0)
   \<or> (direction = Keys_LEFT \<and> w_x (heap s w) - w_x (heap s current) < 0)"

definition rank :: "'a screen_scheme \<Rightarrow> addr \<Rightarrow> string \<Rightarrow> addr \<Rightarrow> int \<times> int" where
  "rank s current direction w =
     (if direction = Keys_DOWN \<or> direction = Keys_UP
      then (\<bar>w_x (heap s w) - w_x (heap s current)\<bar>, \<bar>w_y (heap s w) - w_y (heap s current)\<bar>)
      else (\<bar>w_y (heap s w) - w_y (heap s current)\<bar>, \<bar>w_x (heap s w) - w_x (heap s current)\<bar>))"

definition lex_le :: "int \<times> int \<Rightarrow> int \<times> int \<Rightarrow> bool" where
  "lex_le p q \<longleftrightarrow> fst p < fst q \<or> (fst p = fst q \<and> snd p \<le> snd q)"

subsection \<open>Concrete screens used in the evaluations below\<close>

definition button_at :: "int \<Rightarrow> int \<Rightarrow> bool \<Rightarrow> widget" where
  "button_at x y focused =
    \<lparr>w_x = x, w_y = y, w_width = 10, w_height = 3, is_focused = focused, is_focusable = True\<rparr>"

text \<open>
  A frame at address 10 and three buttons at addresses 11, 12 and 13, placed at (0, 0),
  (3, 2) and (0, 5); the flag says whether button 11 has the focus.
\<close>

definition three_buttons :: "bool \<Rightarrow> screen" where
  "three_buttons focused =
    \<lparr>heap = (\<lambda>a. if a = 11 then button_at 0 0 focused
                else if a = 12 then button_at 3 2 False
                else if a = 13 then button_at 0 5 False
                else plain_child),
     children = [10, 11, 12, 13], tab_order = None, scr_focus_index = None, app_calls = []\<rparr>"

text \<open>
  What a \<open>Button\<close> does with every key but ENTER: nothing, and the key is not consumed.
\<close>

definition not_consumed :: "screen \<Rightarrow> addr \<Rightarrow> string \<Rightarrow> exn + screen \<times> bool" where
  "not_consumed s w key = Inr (s, False)"

section \<open>The application: navigation stack and shutdown (lista_de_tarefas.py)\<close>

text \<open>
  A function that can raise returns an outcome: the state it returned with, or the
  exception and the state at the moment it was raised (the effects already made stay).
\<close>

datatype 'a outcome = Returned 'a | Raised exn 'a

fun then_do :: "'a outcome \<Rightarrow> ('a \<Rightarrow> 'a outcome) \<Rightarrow> 'a outcome" where
  "then_do (Returned a) f = f a"
| "then_do (Raised e a) f = Raised e a"

fun state_of :: "'a outcome \<Rightarrow> 'a" where
  "state_of (Returned a) = a"
| "state_of (Raised e a) = a"

text \<open>
  The terminal (POSIX branch of libterm.py): the strings written to standard output,
  oldest first, the \<open>raw_mode\<close> flag, the line discipline of the tty (canonical mode and
  echo), and \<open>old_settings\<close>, an attribute that exists only once \<open>enable_raw_mode\<close> has
  saved the settings.
\<close>

record tty_settings =
  icanon :: bool
  echo :: bool

record terminal =
  stdout :: "string list"
  raw_mode :: bool
  tty :: tty_settings
  old_settings :: "tty_settings option"

text \<open>
  A screen on the navigation stack: its identity and its class. The keys delivered to
  screens are recorded in \<open>delivered\<close>; \<open>attempted\<close> records the cleanup steps that
  \<open>quit_app\<close> has started, in order. \<open>database_file\<close> is the content of the file
  \<open>save_database\<close> writes, \<open>None\<close> while it has not been written.
\<close>

record nav_screen =
  scr_id :: nat
  scr_kind :: SCREENS

datatype shutdown_step = ClearScreen | MoveCursor | ShowCursor | SaveDatabase | DisableRawMode

record app =
  screen_stack :: "nav_screen list"
  current_screen :: "nav_screen option"
  terminal :: terminal
  listas :: "lista list"
  database_file :: "lista list option"
  delivered :: "(nav_screen \<times> string) list"
  attempted :: "shutdown_step list"

text \<open>The terminal primitives: each writes one control sequence.\<close>

definition putstr :: "string \<Rightarrow> app \<Rightarrow> app" where
  "putstr text a = a\<lparr>terminal := (terminal a)\<lparr>stdout := stdout (terminal a) @ [text]\<rparr>\<rparr>"

definition clear_screen :: "app \<Rightarrow> app" where
  "clear_screen = putstr (esc # ''[2J'')"

text \<open>\<open>move_cursor(1, 1)\<close> writes \<open>ESC [ 1 ; 1 H\<close>.\<close>

definition move_cursor_home :: "app \<Rightarrow> app" where
  "move_cursor_home = putstr (esc # ''[1;1H'')"

definition show_cursor :: "app \<Rightarrow> app" where
  "show_cursor = putstr (esc # ''[?25h'')"

definition save_database :: "app \<Rightarrow> app" where
  "save_database a = a\<lparr>database_file := Some (listas a)\<rparr>"

text \<open>
  A cleanup step whose input or output can fail: \<open>fails\<close> tells which steps raise (a
  closed or full standard output, an unwritable data file, a tty that rejects the
  settings). A step that fails is taken to raise \<open>OSError\<close> before it has had any
  effect. None of the five calls is inside a \<open>try\<close>; the terminal methods catch only
  the \<open>BlockingIOError\<close> of \<open>flush\<close>.
\<close>

definition attempt ::
  "(shutdown_step \<Rightarrow> bool) \<Rightarrow> shutdown_step \<Rightarrow> (app \<Rightarrow> app outcome) \<Rightarrow> app \<Rightarrow> app outcome" where
  "attempt fails step body a =
    (let a' = a\<lparr>attempted := attempted a @ [step]\<rparr>
     in if fails step then Raised OSError a' else body a')"

text \<open>
  \<open>Terminal.disable_raw_mode\<close>: reading \<open>self.old_settings\<close> raises \<open>AttributeError\<close> when
  the attribute was never assigned; otherwise the saved settings are restored.
\<close>

definition disable_raw_mode :: "app \<Rightarrow> app outcome" where
  "disable_raw_mode a =
    (case old_settings (terminal a) of
       None \<Rightarrow> Raised AttributeError a
     | Some saved \<Rightarrow> Returned (a\<lparr>terminal := (terminal a)\<lparr>tty := saved, raw_mode := False\<rparr>\<rparr>))"

text \<open>\<open>TodoApp.quit_app\<close>; \<open>exit()\<close> raises \<open>SystemExit\<close>.\<close>

definition quit_app :: "(shutdown_step \<Rightarrow> bool) \<Rightarrow> app \<Rightarrow> app outcome" where
  "quit_app fails a =
    then_do (attempt fails ClearScreen (\<lambda>a. Returned (clear_screen a)) a) (\<lambda>a.
    then_do (attempt fails MoveCursor (\<lambda>a. Returned (move_cursor_home a)) a) (\<lambda>a.
    then_do (attempt fails ShowCursor (\<lambda>a. Returned (show_cursor a)) a) (\<lambda>a.
    then_do (attempt fails SaveDatabase (\<lambda>a. Returned (save_database a)) a) (\<lambda>a.
    then_do (attempt fails DisableRawMode disable_raw_mode a) (\<lambda>a.
    Raised SystemExit a)))))"

text \<open>
  \<open>TodoApp.pop_screen_stack\<close>. \<open>list.pop\<close> on an empty stack raises \<open>IndexError\<close>. Every
  screen has \<open>process_input\<close>, so the refresh is always delivered. What the exposed screen
  does with the key \<open>REFRESH\<close> decides what happens next to the stack:
  \<open>TaskDetailScreen.process_input\<close> calls \<open>self.app.pop_screen_stack()\<close> and returns; no
  other screen class calls the application for this key (\<open>ListSelectionScreen\<close> and
  \<open>TaskViewScreen\<close> reload their lists, the others pass the key to \<open>TUIScreen.process_input\<close>,
  where it is no navigation key and no widget runs a callback for it).
\<close>

function pop_screen_stack :: "(shutdown_step \<Rightarrow> bool) \<Rightarrow> app \<Rightarrow> app outcome" where
  "pop_screen_stack fails a =
    (if screen_stack a = [] then Raised IndexError a
     else
       (let a1 = a\<lparr>screen_stack := butlast (screen_stack a)\<rparr> in
        if screen_stack a1 = [] then quit_app fails a1
        else
          (let a2 = a1\<lparr>current_screen := Some (last (screen_stack a1))\<rparr>;
               exposed = last (screen_stack a1);
               a3 = a2\<lparr>delivered := delivered a2 @ [(exposed, ''REFRESH'')]\<rparr>
           in if scr_kind exposed = TASK_DETAIL then pop_screen_stack fails a3
              else Returned a3)))"
  by pat_completeness auto
termination
  by (relation "measure (\<lambda>(fails, a). length (screen_stack a))") auto

declare pop_screen_stack.simps [simp del]

text \<open>
  \<open>TUIApplication.run\<close> over the keys that \<open>read_key\<close> returns: an empty key is skipped,
  any other key is dispatched and the screen rendered again. \<open>process_input\<close> and
  \<open>render\<close> are the dispatch to the active screen. Nothing in the loop catches an
  exception. When the keys read so far are used up the loop is blocked in \<open>read_key\<close>.
\<close>

fun run :: "(app \<Rightarrow> string \<Rightarrow> app outcome) \<Rightarrow> (app \<Rightarrow> app) \<Rightarrow> string list \<Rightarrow> app \<Rightarrow> app outcome" where
  "run process_input render [] a = Returned a"
| "run process_input render (key # keys) a =
    (if key = [] then run process_input render keys a
     else then_do (process_input a key) (\<lambda>a. run process_input render keys (render a)))"

subsection \<open>Concrete applications used in the evaluations below\<close>

definition raw_terminal :: terminal where
  "raw_terminal =
    \<lparr>stdout = [], raw_mode = True, tty = \<lparr>icanon = False, echo = False\<rparr>,
     old_settings = Some \<lparr>icanon = True, echo = True\<rparr>\<rparr>"

definition app_with :: "nav_screen list \<Rightarrow> app" where
  "app_with stack =
    \<lparr>screen_stack = stack, current_screen = Some (last stack), terminal = raw_terminal,
     listas = [\<lparr>lista_id = 1, titulo = ''Minha lista de tarefas'', tarefas = []\<rparr>],
     database_file = None, delivered = [], attempted = []\<rparr>"

definition scr :: "nat \<Rightarrow> SCREENS \<Rightarrow> nav_screen" where
  "scr n k = \<lparr>scr_id = n, scr_kind = k\<rparr>"

definition shutdown_steps :: "shutdown_step list" where
  "shutdown_steps = [ClearScreen, MoveCursor, ShowCursor, SaveDatabase, DisableRawMode]"

definition only_fails :: "shutdown_step \<Rightarrow> shutdown_step \<Rightarrow> bool" where
  "only_fails bad step \<longleftrightarrow> step = bad"

definition never_fails :: "shutdown_step \<Rightarrow> bool" where
  "never_fails step \<longleftrightarrow> False"

text \<open>The state \<open>quit_app\<close> leaves when every step succeeds.\<close>

definition shut_down :: "tty_settings \<Rightarrow> app \<Rightarrow> app" where
  "shut_down saved a =
    a\<lparr>terminal := \<lparr>stdout = stdout (terminal a) @ [esc # ''[2J'', esc # ''[1;1H'', esc # ''[?25h''],
                     raw_mode = False, tty = saved, old_settings = Some saved\<rparr>,
      database_file := Some (listas a),
      attempted := attempted a @ shutdown_steps\<rparr>"



section \<open>Modal dialogs and the screens that host them (libtui.py, listselectionscreen.py, taskviewscreen.py)\<close>

text \<open>
  A dialog's callbacks are bound methods (or a lambda) of the screen that opens it;
  the type \<open>'cb\<close> names them. The geometry of a dialog is read only by \<open>render\<close> and is
  left out.
\<close>

datatype 'cb dialog =
    ConfirmationDialog string 'cb 'cb int
  | AlertDialog string 'cb

text \<open>
  What the two hosting screens have in common: the \<open>dialog\<close> attribute, and the task
  lists of the shared task manager (\<open>self.app.taskmanager.listas\<close>) their callbacks act
  on.
\<close>

record 'cb hosting_screen = screen +
  dialog :: "'cb dialog option"
  taskmanager :: "lista list"

definition and_consumed :: "exn + 's \<Rightarrow> exn + 's \<times> bool" where
  "and_consumed r = (case r of Inl e \<Rightarrow> Inl e | Inr s \<Rightarrow> Inr (s, True))"

text \<open>
  \<open>ConfirmationDialog.process_input\<close> and \<open>AlertDialog.process_input\<close>, acting on the
  dialog \<open>d\<close> that the screen holds in \<open>self.dialog\<close>; \<open>call\<close> runs a callback.
\<close>

definition Dialog_process_input ::
  "('cb \<Rightarrow> ('cb, 'z) hosting_screen_scheme \<Rightarrow> exn + ('cb, 'z) hosting_screen_scheme)
     \<Rightarrow> 'cb dialog \<Rightarrow> string \<Rightarrow> ('cb, 'z) hosting_screen_scheme
     \<Rightarrow> exn + ('cb, 'z) hosting_screen_scheme \<times> bool" where
  "Dialog_process_input call d key s =
    (case d of
       ConfirmationDialog message on_confirm on_cancel focus_idx \<Rightarrow>
         if key = Keys_LEFT \<or> key = Keys_RIGHT \<or> key = Keys_TAB then
           Inr (s\<lparr>dialog := Some (ConfirmationDialog message on_confirm on_cancel (1 - focus_idx))\<rparr>,
                True)
         else if key = Keys_ENTER then
           and_consumed (if focus_idx = 0 then call on_confirm s else call on_cancel s)
         else if key = Keys_ESC then and_consumed (call on_cancel s)
         else Inr (s, True)
     | AlertDialog message on_dismiss \<Rightarrow>
         if key \<in> set [Keys_ENTER, Keys_ESC, Keys_SPACE] then and_consumed (call on_dismiss s)
         else Inr (s, True))"

subsection \<open>ListSelectionScreen\<close>

text \<open>A label of the list, with the attribute \<open>task_list_obj\<close> that \<open>refresh_lists\<close> attaches.\<close>

record label = widget +
  label_text :: string
  task_list_obj :: "lista option"

definition Label_init :: "string \<Rightarrow> label" where
  "Label_init t =
    \<lparr>w_x = 1, w_y = 1, w_width = int (py_len t), w_height = 1,
     is_focused = False, is_focusable = False, label_text = t, task_list_obj = None\<rparr>"

text \<open>
  The widgets of the screen live in the store; its attributes hold their addresses. The
  fields that \<open>VerticalList\<close> adds to \<open>Widget\<close> are kept in \<open>list_fields\<close> for the one list
  of the screen.
\<close>

record list_fields =
  lf_children :: "label list"
  lf_scroll_offset :: int
  lf_focus_index :: int

datatype lss_callback = CancelDelete | PerformActualDelete

datatype lss_on_click =
  ViewSelectedListTasks | ViewAllTasks | CreateNewList | EditSelectedList | SearchTasks

record list_selection_screen = "lss_callback hosting_screen" +
  frame :: addr
  list_widget :: addr
  view_list_button :: addr
  view_all_button :: addr
  create_list_button :: addr
  edit_list_button :: addr
  search_button :: addr
  list_fields :: list_fields

text \<open>The list widget as one object, read from and written back to the store.\<close>

definition load_list :: "'z list_selection_screen_scheme \<Rightarrow> unit label_ext vertical_list" where
  "load_list s =
    (let w = heap s (list_widget s) in
     \<lparr>w_x = w_x w, w_y = w_y w, w_width = w_width w, w_height = w_height w,
      is_focused = is_focused w, is_focusable = is_focusable w,
      vl_children = lf_children (list_fields s),
      scroll_offset = lf_scroll_offset (list_fields s),
      focus_index_raw = lf_focus_index (list_fields s)\<rparr>)"

definition store_list ::
  "unit label_ext vertical_list \<Rightarrow> 'z list_selection_screen_scheme
     \<Rightarrow> 'z list_selection_screen_scheme" where
  "store_list vl s =
    s\<lparr>heap := (heap s)(list_widget s :=
          \<lparr>w_x = w_x vl, w_y = w_y vl, w_width = w_width vl, w_height = w_height vl,
           is_focused = is_focused vl, is_focusable = is_focusable vl\<rparr>),
      list_fields := \<lparr>lf_children = vl_children vl, lf_scroll_offset = scroll_offset vl,
                      lf_focus_index = focus_index_raw vl\<rparr>\<rparr>"

definition refresh_lists :: "'z list_selection_screen_scheme \<Rightarrow> 'z list_selection_screen_scheme" where
  "refresh_lists s =
    s\<lparr>list_fields := (list_fields s)\<lparr>lf_children :=
        map (\<lambda>task_list. (Label_init (''  '' @ titulo task_list))\<lparr>task_list_obj := Some task_list\<rparr>)
          (taskmanager s)\<rparr>\<rparr>"

text \<open>\<open>get_selected_list_obj\<close>; reading \<open>task_list_obj\<close> from a label that lacks it raises.\<close>

definition get_selected_list_obj :: "'z list_selection_screen_scheme \<Rightarrow> exn + lista option" where
  "get_selected_list_obj s =
    (if lf_children (list_fields s) = [] then Inr None
     else
       (case py_index (lf_children (list_fields s)) (focus_index (load_list s)) of
          Inl e \<Rightarrow> Inl e
        | Inr selected_widget \<Rightarrow>
            (case task_list_obj selected_widget of
               None \<Rightarrow> Inl AttributeError
             | Some task_list \<Rightarrow> Inr (Some task_list))))"

text \<open>
  The two messages. The first is given by the UTF-8 bytes of the source's text (in
  Portuguese: the last list cannot be deleted), which has four accented letters.
\<close>

definition alert_message :: string where
  "alert_message =
     ''N'' @ [CHR 0xC3, CHR 0xA3] @ ''o '' @ [CHR 0xC3, CHR 0xA9] @ '' poss'' @ [CHR 0xC3, CHR 0xAD]
       @ ''vel excluir a '' @ [CHR 0xC3, CHR 0xBA] @ ''ltima lista.''"

definition confirm_message :: "string \<Rightarrow> string" where
  "confirm_message t = ''Apagar '' @ [CHR 0x27] @ t @ [CHR 0x27] @ '' e todas as suas tarefas?''"

definition delete_selected_list ::
  "'z list_selection_screen_scheme \<Rightarrow> exn + 'z list_selection_screen_scheme" where
  "delete_selected_list s =
    (case get_selected_list_obj s of
       Inl e \<Rightarrow> Inl e
     | Inr None \<Rightarrow> Inr s
     | Inr (Some selected) \<Rightarrow>
         if length (taskmanager s) \<le> 1
         then Inr (s\<lparr>dialog := Some (AlertDialog alert_message CancelDelete)\<rparr>)
         else Inr (s\<lparr>dialog := Some (ConfirmationDialog (confirm_message (titulo selected))
                                       PerformActualDelete CancelDelete 0)\<rparr>))"

definition cancel_delete :: "'z list_selection_screen_scheme \<Rightarrow> 'z list_selection_screen_scheme" where
  "cancel_delete s = s\<lparr>dialog := None\<rparr>"

definition perform_actual_delete ::
  "'z list_selection_screen_scheme \<Rightarrow> exn + 'z list_selection_screen_scheme" where
  "perform_actual_delete s =
    (case get_selected_list_obj s of
       Inl e \<Rightarrow> Inl e
     | Inr None \<Rightarrow> Inr (s\<lparr>dialog := None\<rparr>)
     | Inr (Some selected) \<Rightarrow>
         Inr ((refresh_lists
                (s\<lparr>taskmanager := remover_lista_de_tarefas (taskmanager s) (lista_id selected)\<rparr>))
              \<lparr>dialog := None\<rparr>))"

fun lss_run_callback ::
  "lss_callback \<Rightarrow> 'z list_selection_screen_scheme \<Rightarrow> exn + 'z list_selection_screen_scheme" where
  "lss_run_callback CancelDelete s = Inr (cancel_delete s)"
| "lss_run_callback PerformActualDelete s = perform_actual_delete s"

text \<open>The \<open>on_click\<close> callbacks of the five buttons.\<close>

definition push_screen_stack ::
  "SCREENS \<Rightarrow> push_data \<Rightarrow> 'z list_selection_screen_scheme \<Rightarrow> 'z list_selection_screen_scheme" where
  "push_screen_stack k d s = s\<lparr>app_calls := app_calls s @ [PushScreenStack k d]\<rparr>"

fun lss_run_on_click ::
  "lss_on_click \<Rightarrow> 'z list_selection_screen_scheme \<Rightarrow> exn + 'z list_selection_screen_scheme" where
  "lss_run_on_click ViewSelectedListTasks s =
    (case get_selected_list_obj s of
       Inl e \<Rightarrow> Inl e
     | Inr None \<Rightarrow> Inr s
     | Inr (Some selected) \<Rightarrow>
         Inr (push_screen_stack FILTER_OPTIONS (PushDict [(''contexto_lista'', selected)]) s))"
| "lss_run_on_click ViewAllTasks s = Inr (push_screen_stack FILTER_OPTIONS (PushDict []) s)"
| "lss_run_on_click CreateNewList s = Inr (push_screen_stack CREATELIST PushNone s)"
| "lss_run_on_click EditSelectedList s =
    (case get_selected_list_obj s of
       Inl e \<Rightarrow> Inl e
     | Inr None \<Rightarrow> Inr s
     | Inr (Some selected) \<Rightarrow> Inr (push_screen_stack EDIT_LIST (PushLista selected) s))"
| "lss_run_on_click SearchTasks s = Inr (push_screen_stack SEARCH_INPUT PushNone s)"

definition on_click_of :: "'z list_selection_screen_scheme \<Rightarrow> addr \<Rightarrow> lss_on_click option" where
  "on_click_of s w =
    (if w = view_list_button s then Some ViewSelectedListTasks
     else if w = view_all_button s then Some ViewAllTasks
     else if w = create_list_button s then Some CreateNewList
     else if w = edit_list_button s then Some EditSelectedList
     else if w = search_button s then Some SearchTasks
     else None)"

text \<open>\<open>Button.process_input\<close> for the button \<open>w\<close> with the callback \<open>on_click\<close>.\<close>

definition Button_process_input ::
  "('c \<Rightarrow> 's \<Rightarrow> exn + 's) \<Rightarrow> widget \<Rightarrow> 'c option \<Rightarrow> string \<Rightarrow> 's \<Rightarrow> exn + 's \<times> bool" where
  "Button_process_input call w on_click key s =
    (if \<not> is_focused w then Inr (s, False)
     else if key = Keys_ENTER \<and> is_focused w then
       (case on_click of
          Some callback \<Rightarrow> and_consumed (call callback s)
        | None \<Rightarrow> Inr (s, True))
     else Inr (s, False))"

text \<open>
  The dispatch of \<open>focused_widget.process_input(key)\<close> on this screen: the list is a
  \<open>VerticalList\<close>, the five buttons are \<open>Button\<close>s, anything else inherits
  \<open>Widget.process_input\<close>.
\<close>

definition lss_widget_input ::
  "'z list_selection_screen_scheme \<Rightarrow> addr \<Rightarrow> string
     \<Rightarrow> exn + 'z list_selection_screen_scheme \<times> bool" where
  "lss_widget_input s w key =
    (if w = list_widget s then
       (case VerticalList_process_input (load_list s) key of
          Inl e \<Rightarrow> Inl e
        | Inr (vl, handled) \<Rightarrow> Inr (store_list vl s, handled))
     else if on_click_of s w \<noteq> None then
       Button_process_input lss_run_on_click (heap s w) (on_click_of s w) key s
     else Inr (s, Widget_process_input (heap s w) key))"

text \<open>\<open>ListSelectionScreen.process_input\<close>.\<close>

definition ListSelectionScreen_process_input ::
  "'z list_selection_screen_scheme \<Rightarrow> string \<Rightarrow> exn + 'z list_selection_screen_scheme" where
  "ListSelectionScreen_process_input s key =
    (case dialog s of
       Some d \<Rightarrow>
         (case Dialog_process_input lss_run_callback d key s of
            Inl e \<Rightarrow> Inl e
          | Inr (s', handled) \<Rightarrow> Inr s')
     | None \<Rightarrow>
         if key = ''REFRESH'' then Inr (refresh_lists s)
         else
           (case (if key = Keys_DELETE then delete_selected_list s else Inr s) of
              Inl e \<Rightarrow> Inl e
            | Inr s1 \<Rightarrow> TUIScreen_process_input lss_widget_input s1 key))"

text \<open>
  \<open>ListSelectionScreen.__init__\<close> for a terminal of the given size and a task manager
  holding the given lists. The seven widgets are allocated at the addresses 20 to 26.
  \<open>ListSelectionScreen_build\<close> is the constructor up to its last statement, which is
  \<open>self.set_focus_by_index(0)\<close>.
\<close>

definition Button_init :: "string \<Rightarrow> int \<Rightarrow> int \<Rightarrow> widget" where
  "Button_init t x y =
    \<lparr>w_x = x, w_y = y, w_width = int (py_len t) + 4, w_height = 3,
     is_focused = False, is_focusable = True\<rparr>"

definition ListSelectionScreen_build :: "int \<Rightarrow> int \<Rightarrow> lista list \<Rightarrow> list_selection_screen" where
  "ListSelectionScreen_build width height ls =
    refresh_lists
      \<lparr>heap = (\<lambda>a.
          if a = 20 then \<lparr>w_x = 1, w_y = 1, w_width = width, w_height = height,
                          is_focused = False, is_focusable = False\<rparr>
          else if a = 21 then \<lparr>w_x = 3, w_y = 3, w_width = width - 6, w_height = height - 8,
                               is_focused = False, is_focusable = True\<rparr>
          else if a = 22 then Button_init ''Ver Lista'' 3 (height - 5)
          else if a = 23 then Button_init ''Ver Todas'' 17 (height - 5)
          else if a = 24 then Button_init ''Criar Lista'' 31 (height - 5)
          else if a = 25 then Button_init ''Editar Lista'' 47 (height - 5)
          else if a = 26 then Button_init ''Buscar'' 64 (height - 5)
          else plain_child),
       children = [20, 21, 22, 23, 24, 25, 26],
       tab_order = Some [21, 22, 23, 24, 25, 26],
       scr_focus_index = None, app_calls = [],
       dialog = None, taskmanager = ls,
       frame = 20, list_widget = 21, view_list_button = 22, view_all_button = 23,
       create_list_button = 24, edit_list_button = 25, search_button = 26,
       list_fields = \<lparr>lf_children = [], lf_scroll_offset = 0, lf_focus_index = 0\<rparr>\<rparr>"

definition ListSelectionScreen_init :: "int \<Rightarrow> int \<Rightarrow> lista list \<Rightarrow> list_selection_screen" where
  "ListSelectionScreen_init width height ls =
    set_focus_by_index (ListSelectionScreen_build width height ls) 0"

subsection \<open>TaskViewScreen\<close>

text \<open>
  The callbacks of the dialog that \<open>TaskViewScreen.confirm_delete_all_completed\<close> opens:
  \<open>_perform_delete_all_completed\<close> and the lambda that clears \<open>self.dialog\<close>.
\<close>

datatype tv_callback = PerformDeleteAllCompleted | ClearDialog

fun tv_run_callback ::
  "tv_callback \<Rightarrow> (tv_callback, 'z) hosting_screen_scheme
     \<Rightarrow> exn + (tv_callback, 'z) hosting_screen_scheme" where
  "tv_run_callback PerformDeleteAllCompleted s =
    Inr (s\<lparr>taskmanager := remover_tarefas_concluidas (taskmanager s),
           dialog := None,
           app_calls := app_calls s @ [PopScreenStack]\<rparr>)"
| "tv_run_callback ClearDialog s = Inr (s\<lparr>dialog := None\<rparr>)"

text \<open>
  \<open>TaskViewScreen.process_input\<close>: the guard on \<open>self.dialog\<close> in full; \<open>without_dialog\<close>
  stands for the rest of the method (the refresh, the shortcuts on the task list and the
  call of \<open>TUIScreen.process_input\<close>), which runs only when no dialog is hosted.
\<close>

definition TaskViewScreen_process_input ::
  "((tv_callback, 'z) hosting_screen_scheme \<Rightarrow> string \<Rightarrow> exn + (tv_callback, 'z) hosting_screen_scheme)
     \<Rightarrow> (tv_callback, 'z) hosting_screen_scheme \<Rightarrow> string
     \<Rightarrow> exn + (tv_callback, 'z) hosting_screen_scheme" where
  "TaskViewScreen_process_input without_dialog s key =
    (case dialog s of
       Some d \<Rightarrow>
         (case Dialog_process_input tv_run_callback d key s of
            Inl e \<Rightarrow> Inl e
          | Inr (s', handled) \<Rightarrow> Inr s')
     | None \<Rightarrow> without_dialog s key)"

text \<open>
  \<open>TaskViewScreen.confirm_delete_all_completed\<close>, the only place where that screen opens
  a dialog. The message is given by its UTF-8 bytes (one accented letter).
\<close>

definition delete_all_message :: string where
  "delete_all_message =
     ''Apagar permanentemente todas as tarefas conclu'' @ [CHR 0xC3, CHR 0xAD] @ ''das?''"

definition confirm_delete_all_completed ::
  "(tv_callback, 'z) hosting_screen_scheme \<Rightarrow> (tv_callback, 'z) hosting_screen_scheme" where
  "confirm_delete_all_completed s =
    s\<lparr>dialog := Some (ConfirmationDialog delete_all_message PerformDeleteAllCompleted ClearDialog 0)\<rparr>"

subsection \<open>Concrete screens used in the evaluations below\<close>

definition two_lists :: "lista list" where
  "two_lists =
    [\<lparr>lista_id = 1, titulo = ''Casa'', tarefas = []\<rparr>,
     \<lparr>lista_id = 2, titulo = ''Trabalho'', tarefas = []\<rparr>]"

text \<open>The list selection screen of an 80 by 24 terminal, as constructed, and with the
  confirmation dialog that the DELETE key opens for the first list.\<close>

definition main_screen :: list_selection_screen where
  "main_screen = ListSelectionScreen_init 80 24 two_lists"

definition main_screen_asking :: list_selection_screen where
  "main_screen_asking =
    main_screen\<lparr>dialog := Some (ConfirmationDialog (confirm_message ''Casa'')
                                  PerformActualDelete CancelDelete 0)\<rparr>"

text \<open>A task view (reduced to what a dialog's callbacks touch) with its dialog open.\<close>

definition task_view_asking :: "tv_callback hosting_screen" where
  "task_view_asking =
    confirm_delete_all_completed
      \<lparr>heap = heap (three_buttons True), children = [10, 11, 12, 13], tab_order = Some [11, 12, 13],
       scr_focus_index = Some 0, app_calls = [], dialog = None, taskmanager = two_lists\<rparr>"

definition unused_rest ::
  "tv_callback hosting_screen \<Rightarrow> string \<Rightarrow> exn + tv_callback hosting_screen" where
  "unused_rest s key = Inr s"

section \<open>The key decoder: properties\<close>

lemma read_sequence_accumulates:
  "no_continuation rs \<Longrightarrow>
     read_sequence acc (map Data cs @ rs) = (acc @ cs, after_stop rs)"
proof (induction cs arbitrary: acc)
  case Nil
  then show ?case by (cases rs rule: no_continuation.cases) simp_all
next
  case (Cons c cs)
  then show ?case by simp
qed

lemma read_key_escape:
  assumes "no_continuation rs"
  shows "read_key (Data esc # map Data cs @ rs) =
    (if cs = [] then (Inr Keys_ESC, after_stop rs)
     else (case map_of escape_sequences (esc # cs) of
             Some k \<Rightarrow> (Inr k, after_stop rs)
           | None \<Rightarrow> (Inr (esc # cs), after_stop rs)))"
  using read_sequence_accumulates [OF assms, of "[esc]" cs]
  by (simp add: read_key_def)

text \<open>
  C4. The key decoder maps the accumulated bytes \<open>ESC [ A\<close> to \<open>UP\<close> and
  \<open>ESC [ 1 5 ~\<close> to \<open>F5\<close>; an accumulated escape sequence (the escape byte followed by
  at least one byte) that is not a key of the table of known sequences is returned
  verbatim as the key, as a normal result and not as an exception; and a bare escape
  byte with no continuation is the \<open>ESC\<close> token. This holds whatever ends the
  accumulation: exhausted input, an empty read or a read error.
\<close>

theorem C4_read_key_decodes:
  "no_continuation rs \<longrightarrow>
     fst (read_key (Data esc # map Data ''[A'' @ rs)) = Inr Keys_UP
   \<and> fst (read_key (Data esc # map Data ''[15~'' @ rs)) = Inr Keys_F5
   \<and> (cs \<noteq> [] \<and> map_of escape_sequences (esc # cs) = None \<longrightarrow>
        fst (read_key (Data esc # map Data cs @ rs)) = Inr (esc # cs))
   \<and> fst (read_key (Data esc # rs)) = Inr Keys_ESC"
proof
  assume stop: "no_continuation rs"
  have up: "fst (read_key (Data esc # map Data ''[A'' @ rs)) = Inr Keys_UP"
    unfolding read_key_escape [OF stop] by (simp add: escape_sequences_def)
  have f5: "fst (read_key (Data esc # map Data ''[15~'' @ rs)) = Inr Keys_F5"
    unfolding read_key_escape [OF stop] by (simp add: escape_sequences_def)
  have raw: "fst (read_key (Data esc # map Data cs @ rs)) = Inr (esc # cs)"
    if "cs \<noteq> []" "map_of escape_sequences (esc # cs) = None"
    unfolding read_key_escape [OF stop] using that by simp
  have bare: "fst (read_key (Data esc # rs)) = Inr Keys_ESC"
    using read_key_escape [OF stop, of "[]"] by simp
  from up f5 raw bare show
    "fst (read_key (Data esc # map Data ''[A'' @ rs)) = Inr Keys_UP
   \<and> fst (read_key (Data esc # map Data ''[15~'' @ rs)) = Inr Keys_F5
   \<and> (cs \<noteq> [] \<and> map_of escape_sequences (esc # cs) = None \<longrightarrow>
        fst (read_key (Data esc # map Data cs @ rs)) = Inr (esc # cs))
   \<and> fst (read_key (Data esc # rs)) = Inr Keys_ESC"
    by blast
qed

theorem C4_read_key_decodes_witness:
  "no_continuation [ReadError, Data CHR ''x'']
   \<and> ''[99~'' \<noteq> [] \<and> map_of escape_sequences (esc # ''[99~'') = None
   \<and> fst (read_key (Data esc # map Data ''[A'' @ [ReadError, Data CHR ''x''])) = Inr Keys_UP
   \<and> fst (read_key (Data esc # map Data ''[15~'' @ [ReadError, Data CHR ''x''])) = Inr Keys_F5
   \<and> fst (read_key (Data esc # map Data ''[99~'' @ [ReadError, Data CHR ''x'']))
       = Inr (esc # ''[99~'')
   \<and> fst (read_key [Data esc, ReadError, Data CHR ''x'']) = Inr Keys_ESC"
proof -
  have stop: "no_continuation [ReadError, Data CHR ''x'']" by simp
  have unknown: "map_of escape_sequences (esc # ''[99~'') = None"
    by (simp add: escape_sequences_def)
  show ?thesis
    using C4_read_key_decodes [of "[ReadError, Data CHR ''x'']" "''[99~''"] stop unknown
    by simp
qed

section \<open>IntInput: Up and Down saturate at the bounds\<close>

text \<open>
  C1 as stated (Up at the maximum wraps to the minimum, Down at the minimum wraps to
  the maximum) does not hold: with bounds 0 and 5, Up at 5 leaves 5 and Down at 0
  leaves 0.
\<close>

theorem C1_wraparound_counterexample:
  "ii_value (int_input_at 5) = 5 \<and> ii_max (int_input_at 5) = Some 5
   \<and> ii_value (fst (IntInput_process_input (int_input_at 5) Keys_UP)) = 5
   \<and> Some (ii_value (fst (IntInput_process_input (int_input_at 5) Keys_UP)))
        \<noteq> ii_min (int_input_at 5)
   \<and> ii_value (int_input_at 0) = 0 \<and> ii_min (int_input_at 0) = Some 0
   \<and> ii_value (fst (IntInput_process_input (int_input_at 0) Keys_DOWN)) = 0
   \<and> Some (ii_value (fst (IntInput_process_input (int_input_at 0) Keys_DOWN)))
        \<noteq> ii_max (int_input_at 0)"
  by (simp add: IntInput_process_input_def IntInput_update_text_def int_input_at_def Keys_defs)

text \<open>
  C1, amended. For a focused \<open>IntInput\<close> in Edit mode with both bounds configured, Up
  adds one and Down subtracts one, saturating at the bound: the new value is
  \<open>min (value + 1) max\<close> after Up and \<open>max (value - 1) min\<close> after Down. In particular Up
  at the maximum leaves the maximum and Down at the minimum leaves the minimum. Both
  keys are reported consumed.
\<close>

theorem C1_saturates:
  assumes "ii_is_focused w" "ii_being_edited w" "ii_min w = Some lo" "ii_max w = Some hi"
  shows "ii_value (fst (IntInput_process_input w Keys_UP)) = min (ii_value w + 1) hi
       \<and> ii_value (fst (IntInput_process_input w Keys_DOWN)) = max (ii_value w - 1) lo
       \<and> (ii_value w = hi \<longrightarrow> ii_value (fst (IntInput_process_input w Keys_UP)) = hi)
       \<and> (ii_value w = lo \<longrightarrow> ii_value (fst (IntInput_process_input w Keys_DOWN)) = lo)
       \<and> snd (IntInput_process_input w Keys_UP) \<and> snd (IntInput_process_input w Keys_DOWN)"
  using assms
  by (simp add: IntInput_process_input_def IntInput_update_text_def Keys_defs Let_def)

theorem C1_saturates_witness:
  "ii_is_focused (int_input_at 5) \<and> ii_being_edited (int_input_at 5)
   \<and> ii_min (int_input_at 5) = Some 0 \<and> ii_max (int_input_at 5) = Some 5
   \<and> ii_value (int_input_at 5) = 5
   \<and> ii_value (fst (IntInput_process_input (int_input_at 5) Keys_UP)) = 5
   \<and> ii_value (fst (IntInput_process_input (int_input_at 5) Keys_DOWN)) = 4"
proof -
  have h: "ii_is_focused (int_input_at 5)" "ii_being_edited (int_input_at 5)"
    "ii_min (int_input_at 5) = Some 0" "ii_max (int_input_at 5) = Some 5"
    by (simp_all add: int_input_at_def)
  have v: "ii_value (int_input_at 5) = 5" by (simp add: int_input_at_def)
  from C1_saturates [OF h] v h show ?thesis by simp
qed

section \<open>DateInput: the day is re-clamped when month or year change\<close>

text \<open>The table of the source agrees with the calendar for the months 1 to 12.\<close>

lemma max_day_is_month_length:
  assumes "1 \<le> m" "m \<le> 12"
  shows "max_day_in_month m y = Inr (month_length m y)"
proof -
  from assms have "m = 1 \<or> m = 2 \<or> m = 3 \<or> m = 4 \<or> m = 5 \<or> m = 6 \<or> m = 7 \<or> m = 8
      \<or> m = 9 \<or> m = 10 \<or> m = 11 \<or> m = 12" by arith
  then show ?thesis
    by (auto simp: max_day_in_month_def month_length_def bissexto_def py_index_def
        py_position_def n_dias_mes_def)
qed

lemma month_length_bounds: "28 \<le> month_length m y" "month_length m y \<le> 31"
  by (simp_all add: month_length_def)

lemma clamp_day_is_reclamped:
  assumes "1 \<le> di_month w" "di_month w \<le> 12"
  shows "clamp_day w = Inr (reclamped w (di_month w) (di_year w))"
  using max_day_is_month_length [OF assms, of "di_year w"]
  by (simp add: clamp_day_def reclamped_def min_def)

lemma month_up:
  assumes "di_is_focused w" "di_being_edited w" "di_focus_index w = 1"
    "1 \<le> di_month w" "di_month w \<le> 12"
  shows "DateInput_process_input w Keys_UP =
          Inr (reclamped w (if di_month w = 12 then 1 else di_month w + 1) (di_year w), True)"
proof -
  let ?w2 = "if di_month w + 1 > 12 then w\<lparr>di_month := 1\<rparr> else w\<lparr>di_month := di_month w + 1\<rparr>"
  have run: "DateInput_process_input w Keys_UP = consumed (clamp_day ?w2)"
    using assms(1-3) by (simp add: DateInput_process_input_def Let_def)
  have m: "1 \<le> di_month ?w2" "di_month ?w2 \<le> 12" using assms(4,5) by auto
  show ?thesis
    unfolding run clamp_day_is_reclamped [OF m] using assms(4,5)
    by (auto simp: consumed_def reclamped_def)
qed

lemma month_down:
  assumes "di_is_focused w" "di_being_edited w" "di_focus_index w = 1"
    "1 \<le> di_month w" "di_month w \<le> 12"
  shows "DateInput_process_input w Keys_DOWN =
          Inr (reclamped w (if di_month w = 1 then 12 else di_month w - 1) (di_year w), True)"
proof -
  let ?w2 = "if di_month w - 1 < 1 then w\<lparr>di_month := 12\<rparr> else w\<lparr>di_month := di_month w - 1\<rparr>"
  have run: "DateInput_process_input w Keys_DOWN = consumed (clamp_day ?w2)"
    using assms(1-3) by (simp add: DateInput_process_input_def Let_def Keys_defs)
  have m: "1 \<le> di_month ?w2" "di_month ?w2 \<le> 12" using assms(4,5) by auto
  show ?thesis
    unfolding run clamp_day_is_reclamped [OF m] using assms(4,5)
    by (auto simp: consumed_def reclamped_def)
qed

lemma year_up:
  assumes "di_is_focused w" "di_being_edited w" "di_focus_index w = 2"
    "1 \<le> di_month w" "di_month w \<le> 12"
  shows "DateInput_process_input w Keys_UP =
          Inr (reclamped w (di_month w) (di_year w + 1), True)"
proof -
  let ?w2 = "w\<lparr>di_year := di_year w + 1\<rparr>"
  have run: "DateInput_process_input w Keys_UP = consumed (clamp_day ?w2)"
    using assms(1-3) by (simp add: DateInput_process_input_def Let_def)
  have m: "1 \<le> di_month ?w2" "di_month ?w2 \<le> 12" using assms(4,5) by auto
  show ?thesis
    unfolding run clamp_day_is_reclamped [OF m]
    by (simp add: consumed_def reclamped_def)
qed

lemma year_down:
  assumes "di_is_focused w" "di_being_edited w" "di_focus_index w = 2"
    "1 \<le> di_month w" "di_month w \<le> 12"
  shows "DateInput_process_input w Keys_DOWN =
          Inr (reclamped w (di_month w) (if di_year w - 1 < 1 then 1 else di_year w - 1), True)"
proof -
  let ?w2 = "if di_year w - 1 < 1 then w\<lparr>di_year := 1\<rparr> else w\<lparr>di_year := di_year w - 1\<rparr>"
  have run: "DateInput_process_input w Keys_DOWN = consumed (clamp_day ?w2)"
    using assms(1-3) by (simp add: DateInput_process_input_def Let_def Keys_defs)
  have m: "1 \<le> di_month ?w2" "di_month ?w2 \<le> 12" using assms(4,5) by auto
  show ?thesis
    unfolding run clamp_day_is_reclamped [OF m]
    by (auto simp: consumed_def reclamped_def)
qed

lemma january_to_february:
  "DateInput_process_input (date_input_at 31 1 y 1) Keys_UP =
     Inr (date_input_at (if bissexto y then 29 else 28) 2 y 1, True)"
  by (simp add: DateInput_process_input_def clamp_day_def consumed_def max_day_in_month_def
      date_input_at_def Keys_defs)

lemma leap_day_next_year:
  "DateInput_process_input (date_input_at 29 2 2024 2) Keys_UP =
     Inr (date_input_at 28 2 2025 2, True)"
  by (simp add: DateInput_process_input_def clamp_day_def consumed_def max_day_in_month_def
      bissexto_def date_input_at_def Keys_defs)

lemma march_to_april:
  "DateInput_process_input (date_input_at 31 3 y 1) Keys_UP =
     Inr (date_input_at 30 4 y 1, True)"
  by (simp add: DateInput_process_input_def clamp_day_def consumed_def max_day_in_month_def
      py_index_def py_position_def n_dias_mes_def date_input_at_def Keys_defs)

text \<open>
  C3 as stated does not hold for every \<open>DateInput\<close>. The constructor stores the date
  tuple it is given without checking it, and \<open>_max_day_in_month\<close> subscripts the table of
  twelve month lengths with \<open>month - 1\<close>: on a widget holding the month 13 (day 5, year
  2023), Up on the year field raises \<open>IndexError\<close> and no day is re-clamped.
\<close>

theorem C3_month_out_of_range_counterexample:
  "di_is_focused (date_input_at 5 13 2023 2) \<and> di_being_edited (date_input_at 5 13 2023 2)
   \<and> di_focus_index (date_input_at 5 13 2023 2) = 2
   \<and> DateInput_process_input (date_input_at 5 13 2023 2) Keys_UP = Inl IndexError"
  by (simp add: DateInput_process_input_def clamp_day_def consumed_def max_day_in_month_def
      py_index_def py_position_def n_dias_mes_def date_input_at_def Keys_defs)

text \<open>
  C3, amended. For a focused \<open>DateInput\<close> in Edit mode holding a month between 1 and 12,
  an Up or Down keypress on the month field (index 1) or the year field (index 2) is
  consumed, moves to the new month (wrapping between 12 and 1) or the new year (never
  below 1), and leaves the day at the minimum of the old day and the length of the new
  month in the new year, so never above that length. The length is that of the calendar:
  31 days for January, March, May, July, August, October and December, 30 for April,
  June, September and November, and for February 29 iff the year is divisible by 4 and
  (not divisible by 100 or divisible by 400), otherwise 28; it is what
  \<open>_max_day_in_month\<close> returns for these months. From 31 January, incrementing the month
  gives 29 February in such a year and 28 February otherwise; from 31 March it gives 30
  April; from 29 February 2024, incrementing the year gives 28 February 2025.
\<close>

theorem C3_day_reclamped:
  "(di_is_focused w \<and> di_being_edited w \<and> 1 \<le> di_month w \<and> di_month w \<le> 12 \<longrightarrow>
      (di_focus_index w = 1 \<longrightarrow>
         DateInput_process_input w Keys_UP =
           Inr (reclamped w (if di_month w = 12 then 1 else di_month w + 1) (di_year w), True)
         \<and> DateInput_process_input w Keys_DOWN =
           Inr (reclamped w (if di_month w = 1 then 12 else di_month w - 1) (di_year w), True))
      \<and> (di_focus_index w = 2 \<longrightarrow>
         DateInput_process_input w Keys_UP =
           Inr (reclamped w (di_month w) (di_year w + 1), True)
         \<and> DateInput_process_input w Keys_DOWN =
           Inr (reclamped w (di_month w) (if di_year w - 1 < 1 then 1 else di_year w - 1), True)))
   \<and> di_day (reclamped w m y) = min (di_day w) (month_length m y)
   \<and> di_day (reclamped w m y) \<le> month_length m y
   \<and> di_month (reclamped w m y) = m \<and> di_year (reclamped w m y) = y
   \<and> month_length 1 y = 31 \<and> month_length 3 y = 31 \<and> month_length 4 y = 30
   \<and> month_length 5 y = 31 \<and> month_length 6 y = 30 \<and> month_length 7 y = 31
   \<and> month_length 8 y = 31 \<and> month_length 9 y = 30 \<and> month_length 10 y = 31
   \<and> month_length 11 y = 30 \<and> month_length 12 y = 31
   \<and> month_length 2 y = (if y mod 4 = 0 \<and> (y mod 100 \<noteq> 0 \<or> y mod 400 = 0) then 29 else 28)
   \<and> (1 \<le> m \<and> m \<le> 12 \<longrightarrow> max_day_in_month m y = Inr (month_length m y))
   \<and> DateInput_process_input (date_input_at 31 1 y 1) Keys_UP =
       Inr (date_input_at
             (if y mod 4 = 0 \<and> (y mod 100 \<noteq> 0 \<or> y mod 400 = 0) then 29 else 28) 2 y 1, True)
   \<and> DateInput_process_input (date_input_at 31 3 y 1) Keys_UP =
       Inr (date_input_at 30 4 y 1, True)
   \<and> DateInput_process_input (date_input_at 29 2 2024 2) Keys_UP =
       Inr (date_input_at 28 2 2025 2, True)"
proof -
  have steps: "(di_focus_index w = 1 \<longrightarrow>
         DateInput_process_input w Keys_UP =
           Inr (reclamped w (if di_month w = 12 then 1 else di_month w + 1) (di_year w), True)
         \<and> DateInput_process_input w Keys_DOWN =
           Inr (reclamped w (if di_month w = 1 then 12 else di_month w - 1) (di_year w), True))
      \<and> (di_focus_index w = 2 \<longrightarrow>
         DateInput_process_input w Keys_UP =
           Inr (reclamped w (di_month w) (di_year w + 1), True)
         \<and> DateInput_process_input w Keys_DOWN =
           Inr (reclamped w (di_month w) (if di_year w - 1 < 1 then 1 else di_year w - 1), True))"
    if "di_is_focused w \<and> di_being_edited w \<and> 1 \<le> di_month w \<and> di_month w \<le> 12"
    using that month_up [of w] month_down [of w] year_up [of w] year_down [of w] by blast
  have day: "di_day (reclamped w m y) = min (di_day w) (month_length m y)"
    "di_day (reclamped w m y) \<le> month_length m y"
    "di_month (reclamped w m y) = m" "di_year (reclamped w m y) = y"
    by (simp_all add: reclamped_def)
  have lengths: "month_length 1 y = 31" "month_length 3 y = 31" "month_length 4 y = 30"
    "month_length 5 y = 31" "month_length 6 y = 30" "month_length 7 y = 31"
    "month_length 8 y = 31" "month_length 9 y = 30" "month_length 10 y = 31"
    "month_length 11 y = 30" "month_length 12 y = 31"
    "month_length 2 y = (if y mod 4 = 0 \<and> (y mod 100 \<noteq> 0 \<or> y mod 400 = 0) then 29 else 28)"
    by (simp_all add: month_length_def)
  have table: "max_day_in_month m y = Inr (month_length m y)" if "1 \<le> m \<and> m \<le> 12"
    using that max_day_is_month_length [of m y] by blast
  have jan: "DateInput_process_input (date_input_at 31 1 y 1) Keys_UP =
       Inr (date_input_at
             (if y mod 4 = 0 \<and> (y mod 100 \<noteq> 0 \<or> y mod 400 = 0) then 29 else 28) 2 y 1, True)"
    using january_to_february [of y] by (simp add: bissexto_def)
  note mar = march_to_april [of y]
  note feb = leap_day_next_year
  from steps day lengths table jan mar feb show ?thesis by blast
qed

theorem C3_day_reclamped_witness:
  "di_is_focused (date_input_at 31 5 2023 1) \<and> di_being_edited (date_input_at 31 5 2023 1)
   \<and> di_focus_index (date_input_at 31 5 2023 1) = 1
   \<and> 1 \<le> di_month (date_input_at 31 5 2023 1) \<and> di_month (date_input_at 31 5 2023 1) \<le> 12
   \<and> DateInput_process_input (date_input_at 31 5 2023 1) Keys_UP
       = Inr (date_input_at 30 6 2023 1, True)
   \<and> DateInput_process_input (date_input_at 31 5 2023 1) Keys_DOWN
       = Inr (date_input_at 30 4 2023 1, True)
   \<and> di_focus_index (date_input_at 29 2 2024 2) = 2
   \<and> DateInput_process_input (date_input_at 29 2 2024 2) Keys_DOWN
       = Inr (date_input_at 28 2 2023 2, True)
   \<and> max_day_in_month 9 2023 = Inr 30"
proof -
  have h: "di_is_focused (date_input_at 31 5 2023 1)" "di_being_edited (date_input_at 31 5 2023 1)"
    "di_focus_index (date_input_at 31 5 2023 1) = 1"
    "1 \<le> di_month (date_input_at 31 5 2023 1)" "di_month (date_input_at 31 5 2023 1) \<le> 12"
    by (simp_all add: date_input_at_def)
  have g: "di_is_focused (date_input_at 29 2 2024 2)" "di_being_edited (date_input_at 29 2 2024 2)"
    "di_focus_index (date_input_at 29 2 2024 2) = 2"
    "1 \<le> di_month (date_input_at 29 2 2024 2)" "di_month (date_input_at 29 2 2024 2) \<le> 12"
    by (simp_all add: date_input_at_def)
  note may = C3_day_reclamped [of "date_input_at 31 5 2023 1" 9 2023]
  note feb = C3_day_reclamped [of "date_input_at 29 2 2024 2" 9 2023]
  from may h have up: "DateInput_process_input (date_input_at 31 5 2023 1) Keys_UP =
      Inr (reclamped (date_input_at 31 5 2023 1)
            (if di_month (date_input_at 31 5 2023 1) = 12 then 1
             else di_month (date_input_at 31 5 2023 1) + 1)
            (di_year (date_input_at 31 5 2023 1)), True)"
    and down: "DateInput_process_input (date_input_at 31 5 2023 1) Keys_DOWN =
      Inr (reclamped (date_input_at 31 5 2023 1)
            (if di_month (date_input_at 31 5 2023 1) = 1 then 12
             else di_month (date_input_at 31 5 2023 1) - 1)
            (di_year (date_input_at 31 5 2023 1)), True)"
    by blast+
  from may have d: "max_day_in_month 9 2023 = Inr 30"
    by simp
  from feb g have ydown: "DateInput_process_input (date_input_at 29 2 2024 2) Keys_DOWN =
      Inr (reclamped (date_input_at 29 2 2024 2) (di_month (date_input_at 29 2 2024 2))
            (if di_year (date_input_at 29 2 2024 2) - 1 < 1 then 1
             else di_year (date_input_at 29 2 2024 2) - 1), True)"
    by blast
  have a: "DateInput_process_input (date_input_at 31 5 2023 1) Keys_UP
       = Inr (date_input_at 30 6 2023 1, True)"
    unfolding up by (simp add: reclamped_def month_length_def date_input_at_def)
  have b: "DateInput_process_input (date_input_at 31 5 2023 1) Keys_DOWN
       = Inr (date_input_at 30 4 2023 1, True)"
    unfolding down by (simp add: reclamped_def month_length_def date_input_at_def)
  have c: "DateInput_process_input (date_input_at 29 2 2024 2) Keys_DOWN
       = Inr (date_input_at 28 2 2023 2, True)"
    unfolding ydown by (simp add: reclamped_def month_length_def date_input_at_def)
  from h g(3) a b c d show ?thesis by blast
qed

section \<open>VerticalList: the selection stays in the visible window\<close>

lemma set_child_focused_ok:
  assumes "- int (length cs) \<le> i" "i < int (length cs)"
  shows "\<exists>cs'. set_child_focused cs i b = Inr cs' \<and> length cs' = length cs"
  using assms by (auto simp: set_child_focused_def py_position_def)

lemma focus_index_range:
  assumes "vl_children vl \<noteq> []" "0 \<le> focus_index_raw vl"
  shows "0 \<le> focus_index vl" "focus_index vl < int (length (vl_children vl))"
  using assms by (auto simp: focus_index_def)

lemma ensure_visible_fields:
  "vl_children (ensure_visible vl) = vl_children vl"
  "focus_index_raw (ensure_visible vl) = focus_index_raw vl"
  "w_height (ensure_visible vl) = w_height vl"
  "focus_index (ensure_visible vl) = focus_index vl"
  by (simp_all add: ensure_visible_def focus_index_def)

lemma ensure_visible_window:
  assumes "3 \<le> w_height vl"
  shows "scroll_offset (ensure_visible vl) \<le> focus_index vl"
    and "focus_index vl \<le> scroll_offset (ensure_visible vl) + w_height vl - 3"
  using assms by (auto simp: ensure_visible_def)

lemma ensure_visible_last:
  assumes "3 \<le> w_height vl" "scroll_offset vl \<le> n - (w_height vl - 2)" "focus_index vl = n - 1"
  shows "scroll_offset (ensure_visible vl) = n - (w_height vl - 2)"
  using assms by (auto simp: ensure_visible_def)

text \<open>The scroll offset never passes the last full window once it is within it.\<close>

lemma ensure_visible_bound:
  assumes "3 \<le> w_height vl" "scroll_offset vl \<le> n - (w_height vl - 2)" "focus_index vl \<le> n - 1"
  shows "scroll_offset (ensure_visible vl) \<le> n - (w_height vl - 2)"
  using assms by (auto simp: ensure_visible_def)

lemma move_focus_runs:
  fixes vl :: "'c vertical_list"
  assumes ne: "vl_children vl \<noteq> []" and raw: "0 \<le> focus_index_raw vl"
  defines "n \<equiv> int (length (vl_children vl))"
  shows "\<exists>cs. length cs = length (vl_children vl) \<and>
           VerticalList_move_focus vl delta =
             Inr (ensure_visible (vl\<lparr>focus_index_raw := (focus_index vl + delta) mod n,
                    vl_children := cs\<rparr>))"
proof -
  have npos: "0 < n" using ne by (simp add: n_def)
  from focus_index_range [OF ne raw]
  have ci: "- int (length (vl_children vl)) \<le> focus_index vl"
           "focus_index vl < int (length (vl_children vl))" by simp_all
  from set_child_focused_ok [OF ci, of False] obtain cs1
    where cs1: "set_child_focused (vl_children vl) (focus_index vl) False = Inr cs1"
      and l1: "length cs1 = length (vl_children vl)" by blast
  let ?k = "(focus_index vl + delta) mod n"
  have k: "0 \<le> ?k" "?k < n" using npos by simp_all
  let ?vl2 = "vl\<lparr>vl_children := cs1, focus_index_raw := ?k\<rparr>"
  have set2: "set_focus_index (vl\<lparr>vl_children := cs1\<rparr>)
                ((focus_index vl + delta) mod int (length cs1)) = ?vl2"
    using k ne l1 by (simp add: set_focus_index_def n_def)
  have fi2: "focus_index ?vl2 = ?k" using k ne l1 by (auto simp: focus_index_def n_def)
  have "- int (length cs1) \<le> ?k" "?k < int (length cs1)" using k l1 by (simp_all add: n_def)
  from set_child_focused_ok [OF this, of True] obtain cs2
    where cs2: "set_child_focused cs1 ?k True = Inr cs2"
      and l2: "length cs2 = length cs1" by blast
  have "VerticalList_move_focus vl delta =
          Inr (ensure_visible (vl\<lparr>focus_index_raw := ?k, vl_children := cs2\<rparr>))"
    using ne cs1 set2 fi2 cs2 by (simp add: VerticalList_move_focus_def Let_def)
  with l1 l2 show ?thesis by auto
qed

text \<open>
  C9 as stated does not hold for every list. With height 2 (a window of no rows), Down
  from the first of three children selects index 1 and sets the scroll offset to 2, so
  the selection is outside \<open>[offset, offset + H - 3]\<close>. And with height 5 and 9 children,
  when the scroll offset is 7 (past the last full window, as it is after the list has
  lost a child while scrolled to its end), Down from index 7 selects the last child and
  leaves the offset at 7, not at \<open>N - (H - 2) = 6\<close>.
\<close>

theorem C9_window_counterexample:
  "VerticalList_move_focus (list_of 2 3 0 0) 1 =
     Inr ((list_of 2 3 2 1)\<lparr>vl_children :=
            [plain_child, plain_child\<lparr>is_focused := True\<rparr>, plain_child]\<rparr>)
   \<and> focus_index (list_of 2 3 2 1) = 1
   \<and> \<not> (scroll_offset (list_of 2 3 2 1) \<le> focus_index (list_of 2 3 2 1)
        \<and> focus_index (list_of 2 3 2 1)
            \<le> scroll_offset (list_of 2 3 2 1) + w_height (list_of 2 3 2 1) - 3)
   \<and> scroll_offset (list_of 5 9 7 7) = 7
   \<and> map_sum id focus_index (VerticalList_move_focus (list_of 5 9 7 7) 1) = Inr (9 - 1)
   \<and> map_sum id scroll_offset (VerticalList_move_focus (list_of 5 9 7 7) 1) = Inr 7
   \<and> (7::int) \<noteq> 9 - (5 - 2)"
  by (simp add: VerticalList_move_focus_def focus_index_def set_focus_index_def
      set_child_focused_def py_position_def ensure_visible_def list_of_def plain_child_def Let_def
      numeral_3_eq_3 eval_nat_numeral)

text \<open>
  C9, amended. For a scrolling list of height \<open>H \<ge> 3\<close> with at least one child (and a
  stored selection index that is not negative, as the constructor and the setter keep
  it), every selection move returns normally, selects \<open>(index + delta) mod N\<close>, and
  leaves the selected index within \<open>[scroll_offset, scroll_offset + H - 3]\<close>. If moreover
  \<open>N > H - 2\<close> and the scroll offset before the move is at most \<open>N - (H - 2)\<close>, a move that
  selects the last child yields \<open>scroll_offset = N - (H - 2)\<close>.
\<close>

theorem C9_selection_visible:
  fixes vl :: "'c vertical_list"
  assumes ne: "vl_children vl \<noteq> []" and raw: "0 \<le> focus_index_raw vl" and h: "3 \<le> w_height vl"
  shows "\<exists>vl'. VerticalList_move_focus vl delta = Inr vl'
     \<and> length (vl_children vl') = length (vl_children vl)
     \<and> w_height vl' = w_height vl
     \<and> focus_index vl' = (focus_index vl + delta) mod int (length (vl_children vl))
     \<and> scroll_offset vl' \<le> focus_index vl'
     \<and> focus_index vl' \<le> scroll_offset vl' + w_height vl' - 3
     \<and> (int (length (vl_children vl)) > w_height vl - 2
          \<and> scroll_offset vl \<le> int (length (vl_children vl)) - (w_height vl - 2)
          \<and> focus_index vl' = int (length (vl_children vl)) - 1
        \<longrightarrow> scroll_offset vl' = int (length (vl_children vl)) - (w_height vl - 2))"
proof -
  let ?n = "int (length (vl_children vl))"
  let ?k = "(focus_index vl + delta) mod ?n"
  from move_focus_runs [OF ne raw, of delta] obtain cs
    where l: "length cs = length (vl_children vl)"
      and run: "VerticalList_move_focus vl delta =
         Inr (ensure_visible (vl\<lparr>focus_index_raw := ?k, vl_children := cs\<rparr>))" by blast
  let ?v = "vl\<lparr>focus_index_raw := ?k, vl_children := cs\<rparr>"
  have npos: "0 < ?n" using ne by simp
  have k: "0 \<le> ?k" "?k < ?n" using npos by simp_all
  have fi: "focus_index ?v = ?k" using k l ne by (auto simp: focus_index_def)
  have hv: "3 \<le> w_height ?v" using h by simp
  note win = ensure_visible_window [OF hv]
  have last: "scroll_offset (ensure_visible ?v) = ?n - (w_height vl - 2)"
    if "scroll_offset vl \<le> ?n - (w_height vl - 2)" "?k = ?n - 1"
    using ensure_visible_last [OF hv, of ?n] that fi by simp
  show ?thesis
    apply (rule exI [of _ "ensure_visible ?v"])
    using run l win fi last by (simp add: ensure_visible_fields)
qed

theorem C9_selection_visible_witness:
  "vl_children (list_of 5 9 0 0) \<noteq> [] \<and> 0 \<le> focus_index_raw (list_of 5 9 0 0)
   \<and> 3 \<le> w_height (list_of 5 9 0 0)
   \<and> int (length (vl_children (list_of 5 9 0 0))) > w_height (list_of 5 9 0 0) - 2
   \<and> scroll_offset (list_of 5 9 0 0)
        \<le> int (length (vl_children (list_of 5 9 0 0))) - (w_height (list_of 5 9 0 0) - 2)
   \<and> (\<exists>vl'. VerticalList_move_focus (list_of 5 9 0 0) (- 1) = Inr vl'
        \<and> focus_index vl' = 8 \<and> scroll_offset vl' = 6
        \<and> scroll_offset vl' \<le> focus_index vl'
        \<and> focus_index vl' \<le> scroll_offset vl' + 5 - 3)"
proof -
  have h: "vl_children (list_of 5 9 0 0) \<noteq> []" "0 \<le> focus_index_raw (list_of 5 9 0 0)"
    "3 \<le> w_height (list_of 5 9 0 0)"
    by (simp_all add: list_of_def)
  have v: "int (length (vl_children (list_of 5 9 0 0))) = 9" "w_height (list_of 5 9 0 0) = 5"
    "scroll_offset (list_of 5 9 0 0) = 0" "focus_index (list_of 5 9 0 0) = 0"
    by (simp_all add: list_of_def focus_index_def)
  from C9_selection_visible [OF h, of "- 1"] obtain vl'
    where r: "VerticalList_move_focus (list_of 5 9 0 0) (- 1) = Inr vl'"
      "w_height vl' = w_height (list_of 5 9 0 0)"
      "focus_index vl' = (focus_index (list_of 5 9 0 0) + - 1)
          mod int (length (vl_children (list_of 5 9 0 0)))"
      "scroll_offset vl' \<le> focus_index vl'"
      "focus_index vl' \<le> scroll_offset vl' + w_height vl' - 3"
      "int (length (vl_children (list_of 5 9 0 0))) > w_height (list_of 5 9 0 0) - 2
          \<and> scroll_offset (list_of 5 9 0 0)
              \<le> int (length (vl_children (list_of 5 9 0 0))) - (w_height (list_of 5 9 0 0) - 2)
          \<and> focus_index vl' = int (length (vl_children (list_of 5 9 0 0))) - 1
        \<longrightarrow> scroll_offset vl'
              = int (length (vl_children (list_of 5 9 0 0))) - (w_height (list_of 5 9 0 0) - 2)"
    by blast
  have f: "focus_index vl' = 8" using r(3) v by simp
  have s: "scroll_offset vl' = 6" using r(6) f v by simp
  show ?thesis using h v r(1,2,4,5) f s by auto
qed

section \<open>The screen: focus invariant and directional navigation, proofs\<close>

lemma set_is_focused_fields:
  "is_focusable (heap (set_is_focused s w b) a) = is_focusable (heap s a)"
  "tab_order (set_is_focused s w b) = tab_order s"
  "children (set_is_focused s w b) = children s"
  "scr_focus_index (set_is_focused s w b) = scr_focus_index s"
  "app_calls (set_is_focused s w b) = app_calls s"
  by (simp_all add: set_is_focused_def)

lemma focusable_set_is_focused:
  "get_focusable_widgets (set_is_focused s w b) = get_focusable_widgets s"
  unfolding get_focusable_widgets_def set_is_focused_fields ..

lemma focusable_index_update:
  "get_focusable_widgets (s\<lparr>scr_focus_index := v\<rparr>) = get_focusable_widgets s"
  by (simp add: get_focusable_widgets_def split: option.splits)

lemma heap_set_is_focused:
  "is_focused (heap (set_is_focused s w b) a) = (if a = w then b else is_focused (heap s a))"
  by (simp add: set_is_focused_def)

lemma find_first_focused:
  "get_focused_widget s = Some c \<Longrightarrow> c \<in> set (get_focusable_widgets s) \<and> is_focused (heap s c)"
  unfolding get_focused_widget_def by (auto simp: find_Some_iff)

lemma find_none_focused:
  "get_focused_widget s = None \<longleftrightarrow> (\<forall>a \<in> set (get_focusable_widgets s). \<not> is_focused (heap s a))"
  unfolding get_focused_widget_def by (auto simp: find_None_iff)

lemma at_most_one_iff:
  "at_most_one_focused s \<longleftrightarrow>
     (\<forall>a \<in> set (get_focusable_widgets s). \<forall>b \<in> set (get_focusable_widgets s).
        is_focused (heap s a) \<and> is_focused (heap s b) \<longrightarrow> a = b)"
proof -
  let ?F = "{a \<in> set (get_focusable_widgets s). is_focused (heap s a)}"
  have fin: "finite ?F" by simp
  have len: "length (focused_widgets s) = card ?F"
    by (simp add: focused_widgets_def length_remdups_card_conv)
  have "card ?F \<le> 1 \<longleftrightarrow> (\<forall>a \<in> ?F. \<forall>b \<in> ?F. a = b)"
    using fin by (simp add: card_le_Suc0_iff_eq)
  then show ?thesis unfolding at_most_one_focused_def len by auto
qed

lemma exactly_one_iff:
  "length (focused_widgets s) = 1 \<longleftrightarrow>
     (\<exists>t. {a \<in> set (get_focusable_widgets s). is_focused (heap s a)} = {t})"
  by (simp add: focused_widgets_def length_remdups_card_conv card_1_singleton_iff)

lemma set_focus_by_index_result:
  fixes i :: int
  assumes ne: "get_focusable_widgets s \<noteq> []"
  defines "t \<equiv> get_focusable_widgets s ! nat (max 0 (min i (int (length (get_focusable_widgets s)) - 1)))"
  shows "get_focusable_widgets (set_focus_by_index s i) = get_focusable_widgets s"
    and "is_focused (heap (set_focus_by_index s i) a) =
          (a = t \<or> (Some a \<noteq> get_focused_widget s \<and> is_focused (heap s a)))"
    and "scr_focus_index (set_focus_by_index s i) =
          Some (max 0 (min i (int (length (get_focusable_widgets s)) - 1)))"
    and "t \<in> set (get_focusable_widgets s)"
proof -
  show "get_focusable_widgets (set_focus_by_index s i) = get_focusable_widgets s"
    by (simp add: set_focus_by_index_def Let_def focusable_index_update focusable_set_is_focused
        split: option.splits)
  show "is_focused (heap (set_focus_by_index s i) a) =
          (a = t \<or> (Some a \<noteq> get_focused_widget s \<and> is_focused (heap s a)))"
    using ne by (auto simp: set_focus_by_index_def Let_def heap_set_is_focused t_def split: option.splits)
  show "scr_focus_index (set_focus_by_index s i) =
          Some (max 0 (min i (int (length (get_focusable_widgets s)) - 1)))"
    using ne by (simp add: set_focus_by_index_def Let_def)
  have "nat (max 0 (min i (int (length (get_focusable_widgets s)) - 1))) < length (get_focusable_widgets s)"
  proof -
    have "0 < length (get_focusable_widgets s)" using ne by simp
    then show ?thesis by arith
  qed
  then show "t \<in> set (get_focusable_widgets s)" unfolding t_def by (rule nth_mem)
qed

lemma set_focus_by_index_establishes:
  assumes "at_most_one_focused s"
  shows "focus_invariant (set_focus_by_index s i)"
proof (cases "get_focusable_widgets s = []")
  case True
  then show ?thesis by (simp add: set_focus_by_index_def focus_invariant_def focused_widgets_def)
next
  case ne: False
  let ?fw = "get_focusable_widgets s"
  let ?t = "?fw ! nat (max 0 (min i (int (length ?fw) - 1)))"
  note r = set_focus_by_index_result [OF ne, of i]
  have only: "a = c" if "a \<in> set ?fw" "is_focused (heap s a)" "get_focused_widget s = Some c" for a c
    using assms that find_first_focused [of s c] by (auto simp: at_most_one_iff)
  have none: "\<not> is_focused (heap s a)" if "a \<in> set ?fw" "get_focused_widget s = None" for a
    using that by (simp add: find_none_focused)
  have "{a \<in> set ?fw. is_focused (heap (set_focus_by_index s i) a)} = {?t}"
  proof (cases "get_focused_widget s")
    case None
    then show ?thesis using r(4) none by (auto simp: r(2))
  next
    case (Some c)
    then show ?thesis using r(4) only by (auto simp: r(2))
  qed
  then have "length (focused_widgets (set_focus_by_index s i)) = 1"
    unfolding exactly_one_iff r(1) by blast
  then show ?thesis using ne by (simp add: focus_invariant_def r(1))
qed

lemma move_focus_establishes:
  assumes "at_most_one_focused s"
  shows "focus_invariant (move_focus s d)"
proof (cases "get_focusable_widgets s = []")
  case True
  then show ?thesis by (simp add: move_focus_def focus_invariant_def focused_widgets_def)
next
  case False
  then obtain j where "move_focus s d = set_focus_by_index s j"
    by (simp add: move_focus_def Let_def)
  then show ?thesis using set_focus_by_index_establishes [OF assms] by simp
qed

lemma invariant_at_most_one: "focus_invariant s \<Longrightarrow> at_most_one_focused s"
  by (auto simp: focus_invariant_def at_most_one_focused_def split: if_splits)

lemma init_invariant: "focus_invariant (TUIScreen_init h)"
  by (simp add: focus_invariant_def TUIScreen_init_def get_focusable_widgets_def focused_widgets_def)


lemma move_focus_unfocused:
  assumes ne: "get_focusable_widgets s \<noteq> []" and none: "get_focused_widget s = None"
    and d: "d = 1 \<or> d = - 1"
  shows "move_focus s d = set_focus_by_index s (if d = 1 then 0 else - 1)"
    and "is_focused (heap (move_focus s d) (get_focusable_widgets s ! 0))"
    and "get_focused_widget (move_focus s d) = Some (get_focusable_widgets s ! 0)"
    and "scr_focus_index (move_focus s d) = Some 0"
    and "get_focusable_widgets (move_focus s d) = get_focusable_widgets s"
proof -
  let ?fw = "get_focusable_widgets s"
  let ?i = "if d = 1 then 0 else - 1 :: int"
  show mf: "move_focus s d = set_focus_by_index s ?i"
    using ne none by (simp add: move_focus_def Let_def)
  have len: "0 < length ?fw" using ne by simp
  have clamp: "max 0 (min ?i (int (length ?fw) - 1)) = 0" using len by auto
  note r = set_focus_by_index_result [OF ne, of ?i, unfolded clamp]
  show foc: "is_focused (heap (move_focus s d) (?fw ! 0))"
    unfolding mf by (simp add: r(2))
  show "scr_focus_index (move_focus s d) = Some 0" unfolding mf by (simp add: r(3))
  show same: "get_focusable_widgets (move_focus s d) = ?fw" unfolding mf by (rule r(1))
  have "find (\<lambda>w. is_focused (heap (move_focus s d) w)) ?fw = Some (?fw ! 0)"
    unfolding find_Some_iff using len foc by (intro exI [of _ 0]) simp
  then show "get_focused_widget (move_focus s d) = Some (?fw ! 0)"
    by (simp add: get_focused_widget_def same)
qed

lemma hd_sort_key_least:
  fixes f :: "'a \<Rightarrow> 'k::linorder"
  assumes "xs \<noteq> []"
  shows "hd (sort_key f xs) \<in> set xs" and "\<forall>x \<in> set xs. f (hd (sort_key f xs)) \<le> f x"
proof -
  have "sort_key f xs \<noteq> []" using assms by (metis length_sort length_0_conv)
  then obtain y ys where ys: "sort_key f xs = y # ys" by (cases "sort_key f xs") auto
  have "y \<in> set (sort_key f xs)" by (simp add: ys)
  then show "hd (sort_key f xs) \<in> set xs" by (simp add: ys del: set_sort) (metis ys list.set_intros(1) set_sort)
  have "sorted (map f (y # ys))" using sorted_sort_key [of f xs] by (simp add: ys)
  then have "\<forall>z \<in> set (y # ys). f y \<le> f z" by auto
  then show "\<forall>x \<in> set xs. f (hd (sort_key f xs)) \<le> f x"
    by (metis ys list.sel(1) set_sort)
qed

lemma candidate_yes:
  assumes "strictly_in_direction s cur dir w"
  shows "\<exists>c. candidate s cur dir w = [c] \<and> snd (snd c) = w \<and> candidate_key c = rank s cur dir w"
  using assms
  by (auto simp: strictly_in_direction_def candidate_def rank_def candidate_key_def Let_def Keys_defs)

lemma candidate_no:
  assumes "\<not> strictly_in_direction s cur dir w"
  shows "candidate s cur dir w = []"
  using assms
  by (auto simp: strictly_in_direction_def candidate_def Let_def)

lemma candidates_set:
  "set (concat (map (candidate s cur dir) ws)) =
     {c. \<exists>w \<in> set ws. strictly_in_direction s cur dir w \<and> candidate s cur dir w = [c]}"
proof -
  have "set (candidate s cur dir w) = {c. strictly_in_direction s cur dir w \<and> candidate s cur dir w = [c]}" for w
  proof (cases "strictly_in_direction s cur dir w")
    case True
    from candidate_yes [OF this] obtain c where "candidate s cur dir w = [c]" by blast
    with True show ?thesis by auto
  next
    case False
    then show ?thesis by (simp add: candidate_no)
  qed
  then show ?thesis by auto
qed

lemma direction_is_arrow:
  "strictly_in_direction s cur dir w \<Longrightarrow> dir \<in> set [Keys_DOWN, Keys_UP] \<or> dir \<in> set [Keys_LEFT, Keys_RIGHT]"
  by (auto simp: strictly_in_direction_def)

lemma find_next_some:
  assumes "find_next_widget_in_direction s dir = Some w"
  shows "\<exists>cur. get_focused_widget s = Some cur \<and> w \<in> set (get_focusable_widgets s) \<and> w \<noteq> cur
          \<and> strictly_in_direction s cur dir w
          \<and> (\<forall>v \<in> set (get_focusable_widgets s). v \<noteq> cur \<and> strictly_in_direction s cur dir v
                \<longrightarrow> rank s cur dir w \<le> rank s cur dir v)"
proof -
  from assms obtain cur where cur: "get_focused_widget s = Some cur"
    by (auto simp: find_next_widget_in_direction_def split: option.splits)
  let ?ws = "filter (\<lambda>w. w \<noteq> cur) (get_focusable_widgets s)"
  let ?cs = "concat (map (candidate s cur dir) ?ws)"
  from assms cur have ne: "?cs \<noteq> []"
    by (auto simp: find_next_widget_in_direction_def Let_def split: if_splits)
  then obtain c0 where "c0 \<in> set ?cs" by (cases ?cs) auto
  then obtain w0 where "strictly_in_direction s cur dir w0" unfolding candidates_set by blast
  from direction_is_arrow [OF this]
  have w: "w = snd (snd (hd (sort_key candidate_key ?cs)))"
    using assms cur ne by (auto simp: find_next_widget_in_direction_def Let_def split: if_splits)
  let ?h = "hd (sort_key candidate_key ?cs)"
  from hd_sort_key_least [OF ne, of candidate_key]
  have h_in: "?h \<in> set ?cs" and h_min: "\<forall>c \<in> set ?cs. candidate_key ?h \<le> candidate_key c" by auto
  from h_in obtain v where v: "v \<in> set ?ws" "strictly_in_direction s cur dir v"
      "candidate s cur dir v = [?h]" unfolding candidates_set by blast
  from candidate_yes [OF v(2)] v(3)
  have hv: "snd (snd ?h) = v" "candidate_key ?h = rank s cur dir v" by auto
  have wv: "w = v" using w hv by simp
  have min: "rank s cur dir w \<le> rank s cur dir u"
    if u: "u \<in> set (get_focusable_widgets s)" "u \<noteq> cur" "strictly_in_direction s cur dir u" for u
  proof -
    from candidate_yes [OF u(3)] obtain c where c: "candidate s cur dir u = [c]"
      "candidate_key c = rank s cur dir u" by blast
    have "c \<in> set ?cs" unfolding candidates_set using u c by auto
    with h_min have "candidate_key ?h \<le> candidate_key c" by blast
    then show ?thesis by (simp add: hv wv c)
  qed
  show ?thesis using cur v wv min by auto
qed

lemma find_next_none:
  assumes "\<And>cur v. get_focused_widget s = Some cur \<Longrightarrow> v \<in> set (get_focusable_widgets s)
             \<Longrightarrow> v \<noteq> cur \<Longrightarrow> \<not> strictly_in_direction s cur dir v"
  shows "find_next_widget_in_direction s dir = None"
proof (cases "get_focused_widget s")
  case None
  then show ?thesis by (simp add: find_next_widget_in_direction_def)
next
  case (Some cur)
  have "concat (map (candidate s cur dir) (filter (\<lambda>w. w \<noteq> cur) (get_focusable_widgets s))) = []"
    using assms [OF Some] by (auto simp: candidate_no)
  then show ?thesis using Some by (simp add: find_next_widget_in_direction_def)
qed

lemma list_index_mem:
  "w \<in> set ws \<Longrightarrow> \<exists>i. list_index ws w = Some i \<and> i < length ws \<and> ws ! i = w"
  by (induction ws) auto



lemma focusable_app_calls_update:
  "get_focusable_widgets (s\<lparr>app_calls := v\<rparr>) = get_focusable_widgets s"
  by (simp add: get_focusable_widgets_def split: option.splits)

lemma focus_invariant_cong:
  assumes "get_focusable_widgets s' = get_focusable_widgets s"
    and "\<And>a. is_focused (heap s' a) = is_focused (heap s a)"
  shows "focus_invariant s' = focus_invariant s"
  using assms by (simp add: focus_invariant_def focused_widgets_def)

lemma focused_unique:
  assumes "focus_invariant s" "w \<in> set (get_focusable_widgets s)" "is_focused (heap s w)"
  shows "get_focused_widget s = Some w"
proof (cases "get_focused_widget s")
  case None
  then show ?thesis using assms(2,3) by (simp add: find_none_focused)
next
  case (Some c)
  from find_first_focused [OF Some] invariant_at_most_one [OF assms(1)] assms(2,3)
  have "c = w" by (auto simp: at_most_one_iff)
  with Some show ?thesis by simp
qed

lemma set_focus_by_index_position:
  assumes "i < length (get_focusable_widgets s)"
  shows "is_focused (heap (set_focus_by_index s (int i)) (get_focusable_widgets s ! i))"
proof -
  have ne: "get_focusable_widgets s \<noteq> []" using assms by auto
  have "nat (max 0 (min (int i) (int (length (get_focusable_widgets s)) - 1))) = i"
    using assms by auto
  with set_focus_by_index_result(2) [OF ne, where a = "get_focusable_widgets s ! i" and i = "int i"]
  show ?thesis by simp
qed

lemma arrow_keys_are_not_navigation_keys:
  assumes "key \<in> set [Keys_UP, Keys_DOWN, Keys_LEFT, Keys_RIGHT]"
  shows "key \<noteq> Keys_TAB" "key \<noteq> Keys_SHIFT_TAB" "key \<noteq> Keys_ESC"
  using assms by (auto simp: Keys_defs)

lemma arrow_step_none:
  assumes key: "key \<in> set [Keys_UP, Keys_DOWN, Keys_LEFT, Keys_RIGHT]"
    and offer: "(case get_focused_widget s of
                   Some focused_widget \<Rightarrow> widget_input s focused_widget key
                 | None \<Rightarrow> Inr (s, False)) = Inr (s1, False)"
    and none: "find_next_widget_in_direction s1 key = None"
  shows "TUIScreen_process_input widget_input s key = Inr s1"
  using arrow_keys_are_not_navigation_keys [OF key] key none
  by (simp add: TUIScreen_process_input_def offer)

lemma arrow_step_some:
  assumes key: "key \<in> set [Keys_UP, Keys_DOWN, Keys_LEFT, Keys_RIGHT]"
    and offer: "(case get_focused_widget s of
                   Some focused_widget \<Rightarrow> widget_input s focused_widget key
                 | None \<Rightarrow> Inr (s, False)) = Inr (s1, False)"
    and some: "find_next_widget_in_direction s1 key = Some w"
  shows "\<exists>i. i < length (get_focusable_widgets s1) \<and> get_focusable_widgets s1 ! i = w
           \<and> TUIScreen_process_input widget_input s key = Inr (set_focus_by_index s1 (int i))
           \<and> is_focused (heap (set_focus_by_index s1 (int i)) w)
           \<and> (at_most_one_focused s1 \<longrightarrow> get_focused_widget (set_focus_by_index s1 (int i)) = Some w)"
proof -
  from find_next_some [OF some] have mem: "w \<in> set (get_focusable_widgets s1)" by blast
  from list_index_mem [OF mem] obtain i
    where i: "list_index (get_focusable_widgets s1) w = Some i"
      "i < length (get_focusable_widgets s1)" "get_focusable_widgets s1 ! i = w" by blast
  have run: "TUIScreen_process_input widget_input s key = Inr (set_focus_by_index s1 (int i))"
    using arrow_keys_are_not_navigation_keys [OF key] key some i(1)
    by (simp add: TUIScreen_process_input_def offer)
  have foc: "is_focused (heap (set_focus_by_index s1 (int i)) w)"
    using set_focus_by_index_position [OF i(2)] i(3) by simp
  have ne: "get_focusable_widgets s1 \<noteq> []" using mem by auto
  have "get_focused_widget (set_focus_by_index s1 (int i)) = Some w" if "at_most_one_focused s1"
    using focused_unique [OF set_focus_by_index_establishes [OF that, of "int i"] _ foc]
      mem set_focus_by_index_result(1) [OF ne, where i = "int i"] by simp
  with i run foc show ?thesis by blast
qed

lemma process_input_preserves:
  assumes inv: "focus_invariant s" and keeps: "keeps_focus widget_input"
    and run: "TUIScreen_process_input widget_input s key = Inr s'"
  shows "focus_invariant s'"
proof -
  from run obtain s1 handled where offer:
    "(case get_focused_widget s of
        Some focused_widget \<Rightarrow> widget_input s focused_widget key
      | None \<Rightarrow> Inr (s, False)) = Inr (s1, handled)"
    by (auto simp: TUIScreen_process_input_def split: sum.splits)
  have inv1: "focus_invariant s1"
  proof (cases "get_focused_widget s")
    case None
    with offer inv show ?thesis by simp
  next
    case (Some f)
    with offer have "widget_input s f key = Inr (s1, handled)" by simp
    with keeps have "get_focusable_widgets s1 = get_focusable_widgets s"
      "\<And>a. is_focused (heap s1 a) = is_focused (heap s a)"
      unfolding keeps_focus_def by blast+
    from focus_invariant_cong [OF this] inv show ?thesis by simp
  qed
  show ?thesis
  proof (cases handled)
    case True
    with run offer inv1 show ?thesis by (simp add: TUIScreen_process_input_def)
  next
    case False
    define s2 where "s2 =
      (if key \<in> set [Keys_UP, Keys_DOWN, Keys_LEFT, Keys_RIGHT] then
         (case find_next_widget_in_direction s1 key of
            Some next_widget \<Rightarrow>
              (case list_index (get_focusable_widgets s1) next_widget of
                 Some idx \<Rightarrow> set_focus_by_index s1 (int idx)
               | None \<Rightarrow> s1)
          | None \<Rightarrow> s1)
       else s1)"
    have inv2: "focus_invariant s2"
      unfolding s2_def
      using inv1 set_focus_by_index_establishes [OF invariant_at_most_one [OF inv1]]
      by (auto split: option.splits)
    have "TUIScreen_process_input widget_input s key =
            Inr (if key = Keys_TAB then move_focus s2 1
                 else if key = Keys_SHIFT_TAB then move_focus s2 (- 1)
                 else if key = Keys_ESC then s2\<lparr>app_calls := app_calls s2 @ [PopScreenStack]\<rparr>
                 else s2)"
      unfolding TUIScreen_process_input_def offer s2_def Let_def using False by simp
    with run have s': "s' = (if key = Keys_TAB then move_focus s2 1
                    else if key = Keys_SHIFT_TAB then move_focus s2 (- 1)
                    else if key = Keys_ESC then s2\<lparr>app_calls := app_calls s2 @ [PopScreenStack]\<rparr>
                    else s2)"
      by simp
    have pop: "focus_invariant (s2\<lparr>app_calls := app_calls s2 @ [PopScreenStack]\<rparr>)"
      using inv2
      by (auto simp: focus_invariant_def focused_widgets_def focusable_app_calls_update
          split: if_splits)
    show ?thesis
      unfolding s'
      using inv2 pop move_focus_establishes [OF invariant_at_most_one [OF inv2]]
      by simp
  qed
qed

lemma unfocused_at_most_one:
  assumes "\<forall>w \<in> set (get_focusable_widgets s). \<not> is_focused (heap s w)"
  shows "at_most_one_focused s"
  using assms by (simp add: at_most_one_iff)

lemma lifetime_invariant: "in_lifetime s \<Longrightarrow> focus_invariant s"
proof (induction rule: in_lifetime.induct)
  case (constructed s)
  then show ?case by (intro set_focus_by_index_establishes unfocused_at_most_one)
next
  case (after_set_focus s index)
  then show ?case by (intro set_focus_by_index_establishes invariant_at_most_one)
next
  case (after_move_focus s direction)
  then show ?case by (intro move_focus_establishes invariant_at_most_one)
next
  case (after_input s widget_input key s')
  then show ?case using process_input_preserves by blast
qed

lemma find_next_exists:
  assumes cur: "get_focused_widget s = Some cur"
    and v: "v \<in> set (get_focusable_widgets s)" "v \<noteq> cur" "strictly_in_direction s cur dir v"
  shows "find_next_widget_in_direction s dir \<noteq> None"
proof -
  from candidate_yes [OF v(3)] obtain c where "candidate s cur dir v = [c]" by blast
  then have "c \<in> set (concat (map (candidate s cur dir)
                 (filter (\<lambda>w. w \<noteq> cur) (get_focusable_widgets s))))"
    unfolding candidates_set using v by auto
  then have "concat (map (candidate s cur dir)
                 (filter (\<lambda>w. w \<noteq> cur) (get_focusable_widgets s))) \<noteq> []"
    by (metis empty_iff empty_set)
  then show ?thesis using cur by (simp add: find_next_widget_in_direction_def Let_def)
qed

lemma lex_le_is_pair_order: "lex_le p q \<longleftrightarrow> p \<le> q"
  by (cases p; cases q) (auto simp: lex_le_def less_eq_prod_def)

lemma invariant_in_words:
  "focus_invariant s \<longleftrightarrow>
     (get_focusable_widgets s \<noteq> [] \<longrightarrow>
        (\<exists>!w. w \<in> set (get_focusable_widgets s) \<and> is_focused (heap s w)))"
proof (cases "get_focusable_widgets s = []")
  case True
  then show ?thesis by (simp add: focus_invariant_def focused_widgets_def)
next
  case False
  have "(\<exists>t. {a \<in> set (get_focusable_widgets s). is_focused (heap s a)} = {t})
          \<longleftrightarrow> (\<exists>!w. w \<in> set (get_focusable_widgets s) \<and> is_focused (heap s w))"
    by (auto simp: set_eq_iff) metis
  with False show ?thesis unfolding focus_invariant_def exactly_one_iff by simp
qed

lemma three_buttons_focusable: "get_focusable_widgets (three_buttons f) = [11, 12, 13]"
  by (simp add: get_focusable_widgets_def three_buttons_def button_at_def plain_child_def)


lemma three_buttons_focused: "get_focused_widget (three_buttons True) = Some 11"
  by (simp add: get_focused_widget_def three_buttons_focusable)
     (simp add: three_buttons_def button_at_def)

lemma three_buttons_candidates:
  "candidate (three_buttons True) 11 Keys_DOWN 12 = [(2, 3, 12)]"
  "candidate (three_buttons True) 11 Keys_DOWN 13 = [(5, 0, 13)]"
  by (simp_all add: candidate_def three_buttons_def button_at_def)

lemma three_buttons_next:
  "find_next_widget_in_direction (three_buttons True) Keys_DOWN = Some 13"
  by (simp add: find_next_widget_in_direction_def three_buttons_focused three_buttons_focusable
      three_buttons_candidates candidate_key_def less_eq_prod_def Let_def)

lemma three_buttons_unfocused: "get_focused_widget (three_buttons False) = None"
  by (simp add: get_focused_widget_def three_buttons_focusable)
     (simp add: three_buttons_def button_at_def)

text \<open>
  C6. When the directional search returns a widget, that widget is in the tab order, is
  not the focused widget, and lies strictly in the requested direction from it (DOWN:
  \<open>dy > 0\<close>, UP: \<open>dy < 0\<close>, RIGHT: \<open>dx > 0\<close>, LEFT: \<open>dx < 0\<close>); and its rank (absolute
  perpendicular-axis offset, absolute primary-axis offset) is lexicographically least
  among all such widgets. The search returns nothing exactly when no widget of the tab
  order lies strictly in the direction (or nothing has focus). In \<open>process_input\<close>, for an
  arrow key that the focused widget did not consume: if the search returns nothing the
  screen is left as the widget handler left it, so the focus does not move; otherwise the
  widget found receives the focus.
\<close>

theorem C6_directional_navigation:
  fixes s s1 :: "'a screen_scheme"
  shows
  "(find_next_widget_in_direction s direction = Some w \<longrightarrow>
      (\<exists>current. get_focused_widget s = Some current
         \<and> w \<in> set (get_focusable_widgets s) \<and> w \<noteq> current
         \<and> strictly_in_direction s current direction w
         \<and> (\<forall>v \<in> set (get_focusable_widgets s).
              v \<noteq> current \<and> strictly_in_direction s current direction v
              \<longrightarrow> lex_le (rank s current direction w) (rank s current direction v))))
   \<and> (find_next_widget_in_direction s direction = None \<longleftrightarrow>
        (\<forall>current. get_focused_widget s = Some current \<longrightarrow>
           (\<forall>v \<in> set (get_focusable_widgets s).
              v \<noteq> current \<longrightarrow> \<not> strictly_in_direction s current direction v)))
   \<and> (key \<in> set [Keys_UP, Keys_DOWN, Keys_LEFT, Keys_RIGHT]
        \<and> (case get_focused_widget s of
              Some focused_widget \<Rightarrow> widget_input s focused_widget key
            | None \<Rightarrow> Inr (s, False)) = Inr (s1, False)
      \<longrightarrow> (case find_next_widget_in_direction s1 key of
             None \<Rightarrow> TUIScreen_process_input widget_input s key = Inr s1
           | Some next_widget \<Rightarrow>
               (\<exists>s'. TUIScreen_process_input widget_input s key = Inr s'
                  \<and> is_focused (heap s' next_widget)
                  \<and> (at_most_one_focused s1 \<longrightarrow> get_focused_widget s' = Some next_widget))))"
proof (intro conjI impI)
  assume "find_next_widget_in_direction s direction = Some w"
  from find_next_some [OF this]
  show "\<exists>current. get_focused_widget s = Some current
         \<and> w \<in> set (get_focusable_widgets s) \<and> w \<noteq> current
         \<and> strictly_in_direction s current direction w
         \<and> (\<forall>v \<in> set (get_focusable_widgets s).
              v \<noteq> current \<and> strictly_in_direction s current direction v
              \<longrightarrow> lex_le (rank s current direction w) (rank s current direction v))"
    by (simp add: lex_le_is_pair_order)
next
  show "find_next_widget_in_direction s direction = None \<longleftrightarrow>
        (\<forall>current. get_focused_widget s = Some current \<longrightarrow>
           (\<forall>v \<in> set (get_focusable_widgets s).
              v \<noteq> current \<longrightarrow> \<not> strictly_in_direction s current direction v))"
    using find_next_exists [of s _ _ direction] find_next_none [of s direction] by blast
next
  assume a: "key \<in> set [Keys_UP, Keys_DOWN, Keys_LEFT, Keys_RIGHT]
        \<and> (case get_focused_widget s of
              Some focused_widget \<Rightarrow> widget_input s focused_widget key
            | None \<Rightarrow> Inr (s, False)) = Inr (s1, False)"
  then have key: "key \<in> set [Keys_UP, Keys_DOWN, Keys_LEFT, Keys_RIGHT]"
    and offer: "(case get_focused_widget s of
              Some focused_widget \<Rightarrow> widget_input s focused_widget key
            | None \<Rightarrow> Inr (s, False)) = Inr (s1, False)" by blast+
  show "case find_next_widget_in_direction s1 key of
             None \<Rightarrow> TUIScreen_process_input widget_input s key = Inr s1
           | Some next_widget \<Rightarrow>
               (\<exists>s'. TUIScreen_process_input widget_input s key = Inr s'
                  \<and> is_focused (heap s' next_widget)
                  \<and> (at_most_one_focused s1 \<longrightarrow> get_focused_widget s' = Some next_widget))"
  proof (cases "find_next_widget_in_direction s1 key")
    case None
    from key offer None
    have "TUIScreen_process_input widget_input s key = Inr s1" by (rule arrow_step_none)
    with None show ?thesis by simp
  next
    case (Some next_widget)
    from key offer Some
    have "\<exists>i. i < length (get_focusable_widgets s1) \<and> get_focusable_widgets s1 ! i = next_widget
           \<and> TUIScreen_process_input widget_input s key = Inr (set_focus_by_index s1 (int i))
           \<and> is_focused (heap (set_focus_by_index s1 (int i)) next_widget)
           \<and> (at_most_one_focused s1
                \<longrightarrow> get_focused_widget (set_focus_by_index s1 (int i)) = Some next_widget)"
      by (rule arrow_step_some)
    then show ?thesis unfolding Some by auto
  qed
qed

theorem C6_directional_navigation_witness:
  "find_next_widget_in_direction (three_buttons True) Keys_DOWN = Some 13
   \<and> get_focused_widget (three_buttons True) = Some 11
   \<and> strictly_in_direction (three_buttons True) 11 Keys_DOWN 13
   \<and> strictly_in_direction (three_buttons True) 11 Keys_DOWN 12
   \<and> lex_le (rank (three_buttons True) 11 Keys_DOWN 13) (rank (three_buttons True) 11 Keys_DOWN 12)
   \<and> (\<exists>s'. TUIScreen_process_input not_consumed (three_buttons True) Keys_DOWN = Inr s'
          \<and> is_focused (heap s' 13))"
proof -
  note c6 = C6_directional_navigation [of "three_buttons True" Keys_DOWN 13 Keys_DOWN
      not_consumed "three_buttons True"]
  have next13: "find_next_widget_in_direction (three_buttons True) Keys_DOWN = Some 13"
    by (rule three_buttons_next)
  have cur: "get_focused_widget (three_buttons True) = Some 11" by (rule three_buttons_focused)
  have s12: "strictly_in_direction (three_buttons True) 11 Keys_DOWN 12"
    by (simp add: strictly_in_direction_def three_buttons_def button_at_def)
  from c6 next13 cur
  have a: "strictly_in_direction (three_buttons True) 11 Keys_DOWN 13"
    and b: "\<forall>v \<in> set (get_focusable_widgets (three_buttons True)).
              v \<noteq> 11 \<and> strictly_in_direction (three_buttons True) 11 Keys_DOWN v
              \<longrightarrow> lex_le (rank (three_buttons True) 11 Keys_DOWN 13)
                    (rank (three_buttons True) 11 Keys_DOWN v)"
    by auto
  from b s12 have le: "lex_le (rank (three_buttons True) 11 Keys_DOWN 13)
                    (rank (three_buttons True) 11 Keys_DOWN 12)"
    by (simp add: three_buttons_focusable)
  have key: "Keys_DOWN \<in> set [Keys_UP, Keys_DOWN, Keys_LEFT, Keys_RIGHT]" by simp
  have offer: "(case get_focused_widget (three_buttons True) of
              Some focused_widget \<Rightarrow> not_consumed (three_buttons True) focused_widget Keys_DOWN
            | None \<Rightarrow> Inr (three_buttons True, False)) = Inr (three_buttons True, False)"
    by (simp add: cur not_consumed_def)
  from c6 key offer
  have "\<exists>s'. TUIScreen_process_input not_consumed (three_buttons True) Keys_DOWN = Inr s'
          \<and> is_focused (heap s' 13)"
    unfolding next13 by auto
  with next13 cur a s12 le show ?thesis by blast
qed

text \<open>
  C8. In every state of a screen's lifetime (after construction, after
  \<open>set_focus_by_index\<close>, after \<open>move_focus\<close>, after \<open>process_input\<close> with widget handlers
  that keep the focus) the invariant holds: if the tab order is not empty, exactly one of
  its widgets has \<open>is_focused\<close>, and if it is empty none has. The empty screen the base
  constructor makes satisfies it, and each focus operation establishes it from any state
  where at most one widget of the tab order has focus.
\<close>

theorem C8_focus_invariant:
  "(in_lifetime s \<longrightarrow> focus_invariant s)
   \<and> (focus_invariant s \<longleftrightarrow>
        (if get_focusable_widgets s = []
         then \<not> (\<exists>w \<in> set (get_focusable_widgets s). is_focused (heap s w))
         else \<exists>!w. w \<in> set (get_focusable_widgets s) \<and> is_focused (heap s w)))
   \<and> focus_invariant (TUIScreen_init h)
   \<and> (at_most_one_focused s \<longrightarrow>
        focus_invariant (set_focus_by_index s index) \<and> focus_invariant (move_focus s direction))"
proof (intro conjI impI)
  assume "in_lifetime s"
  then show "focus_invariant s" by (rule lifetime_invariant)
next
  show "focus_invariant s \<longleftrightarrow>
        (if get_focusable_widgets s = []
         then \<not> (\<exists>w \<in> set (get_focusable_widgets s). is_focused (heap s w))
         else \<exists>!w. w \<in> set (get_focusable_widgets s) \<and> is_focused (heap s w))"
    using invariant_in_words [of s] by simp
next
  show "focus_invariant (TUIScreen_init h)" by (rule init_invariant)
next
  assume "at_most_one_focused s"
  then show "focus_invariant (set_focus_by_index s index)"
    by (rule set_focus_by_index_establishes)
next
  assume "at_most_one_focused s"
  then show "focus_invariant (move_focus s direction)"
    by (rule move_focus_establishes)
qed

theorem C8_focus_invariant_witness:
  "focus_invariant (move_focus (set_focus_by_index (three_buttons False) 0) 1)
   \<and> get_focusable_widgets (move_focus (set_focus_by_index (three_buttons False) 0) 1)
        = [11, 12, 13]
   \<and> (\<exists>!w. w \<in> set [11, 12, 13]
          \<and> is_focused (heap (move_focus (set_focus_by_index (three_buttons False) 0) 1) w))"
proof -
  let ?s = "move_focus (set_focus_by_index (three_buttons False) 0) 1"
  have "\<forall>w \<in> set (get_focusable_widgets (three_buttons False)).
          \<not> is_focused (heap (three_buttons False) w)"
    using three_buttons_unfocused by (simp add: find_none_focused)
  then have "in_lifetime (set_focus_by_index (three_buttons False) 0)"
    by (rule in_lifetime.constructed)
  then have life: "in_lifetime ?s" by (rule in_lifetime.after_move_focus)
  have fw: "get_focusable_widgets ?s = [11, 12, 13]"
    using set_focus_by_index_result(1) [of "three_buttons False" 0]
    by (simp add: move_focus_def Let_def three_buttons_focusable
        set_focus_by_index_result(1) [of "set_focus_by_index (three_buttons False) 0"])
  from C8_focus_invariant [of ?s undefined 0 0] life
  have inv: "focus_invariant ?s"
    and words: "focus_invariant ?s \<longleftrightarrow>
        (if get_focusable_widgets ?s = []
         then \<not> (\<exists>w \<in> set (get_focusable_widgets ?s). is_focused (heap ?s w))
         else \<exists>!w. w \<in> set (get_focusable_widgets ?s) \<and> is_focused (heap ?s w))"
    by blast+
  from inv words fw show ?thesis by simp
qed

text \<open>
  C10. On a screen whose tab order is not empty and in which no widget of the tab order
  has focus (\<open>get_focused_widget\<close> returns \<open>None\<close>), \<open>move_focus\<close> gives the focus to the
  widget at index 0 of the tab order, for direction 1 and for direction -1; in the second
  case it calls \<open>set_focus_by_index\<close> with -1, which clamps to 0. The \<open>ValueError\<close> of
  \<open>index(None)\<close> is caught, the clamped subscript is in range, so no path of the function
  raises: the model has no exceptional result.
\<close>

theorem C10_move_focus_without_focus:
  assumes "get_focusable_widgets s \<noteq> []" "get_focused_widget s = None"
  shows "get_focused_widget (move_focus s 1) = Some (get_focusable_widgets s ! 0)
       \<and> is_focused (heap (move_focus s 1) (get_focusable_widgets s ! 0))
       \<and> scr_focus_index (move_focus s 1) = Some 0
       \<and> move_focus s (- 1) = set_focus_by_index s (- 1)
       \<and> get_focused_widget (move_focus s (- 1)) = Some (get_focusable_widgets s ! 0)
       \<and> is_focused (heap (move_focus s (- 1)) (get_focusable_widgets s ! 0))
       \<and> scr_focus_index (move_focus s (- 1)) = Some 0
       \<and> focus_invariant (move_focus s 1) \<and> focus_invariant (move_focus s (- 1))"
proof -
  have amo: "at_most_one_focused s"
    using assms(2) by (simp add: find_none_focused unfocused_at_most_one)
  note up = move_focus_unfocused [OF assms disjI1 [OF refl]]
  note down = move_focus_unfocused [OF assms disjI2 [OF refl]]
  have d1: "move_focus s (- 1) = set_focus_by_index s (- 1)" using down(1) by simp
  note inv = move_focus_establishes [OF amo]
  show ?thesis
    by (intro conjI) (rule up(3) up(2) up(4) d1 down(3) down(2) down(4) inv)+
qed

theorem C10_move_focus_without_focus_witness:
  "get_focusable_widgets (three_buttons False) = [11, 12, 13]
   \<and> get_focused_widget (three_buttons False) = None
   \<and> get_focused_widget (move_focus (three_buttons False) 1) = Some 11
   \<and> get_focused_widget (move_focus (three_buttons False) (- 1)) = Some 11
   \<and> scr_focus_index (move_focus (three_buttons False) (- 1)) = Some 0"
proof -
  have ne: "get_focusable_widgets (three_buttons False) \<noteq> []"
    by (simp add: three_buttons_focusable)
  note c10 = C10_move_focus_without_focus [OF ne three_buttons_unfocused,
      unfolded three_buttons_focusable]
  have first: "[11, 12, 13 :: addr] ! 0 = 11" by simp
  from c10 have "get_focused_widget (move_focus (three_buttons False) 1) = Some 11"
    "get_focused_widget (move_focus (three_buttons False) (- 1)) = Some 11"
    "scr_focus_index (move_focus (three_buttons False) (- 1)) = Some 0"
    unfolding first by blast+
  with three_buttons_focusable [of False] three_buttons_unfocused show ?thesis by blast
qed

section \<open>Shutdown and the navigation stack, proofs\<close>

lemma attempt_simps:
  "fails step \<Longrightarrow> attempt fails step body a = Raised OSError (a\<lparr>attempted := attempted a @ [step]\<rparr>)"
  "\<not> fails step \<Longrightarrow> attempt fails step body a = body (a\<lparr>attempted := attempted a @ [step]\<rparr>)"
  by (simp_all add: attempt_def)

lemma quit_app_attempted:
  "attempted (state_of (quit_app fails a)) =
     attempted a @ takeWhile (\<lambda>step. \<not> fails step) shutdown_steps
       @ take 1 (dropWhile (\<lambda>step. \<not> fails step) shutdown_steps)"
  by (cases "fails ClearScreen"; cases "fails MoveCursor"; cases "fails ShowCursor";
      cases "fails SaveDatabase"; cases "fails DisableRawMode";
      cases "old_settings (terminal a)")
     (simp_all add: quit_app_def attempt_simps shutdown_steps_def clear_screen_def
        move_cursor_home_def show_cursor_def putstr_def save_database_def disable_raw_mode_def)

lemma quit_app_raises: "\<exists>e a'. quit_app fails a = Raised e a' \<and> screen_stack a' = screen_stack a
    \<and> delivered a' = delivered a \<and> current_screen a' = current_screen a"
  by (cases "fails ClearScreen"; cases "fails MoveCursor"; cases "fails ShowCursor";
      cases "fails SaveDatabase"; cases "fails DisableRawMode";
      cases "old_settings (terminal a)")
     (simp_all add: quit_app_def attempt_simps clear_screen_def
        move_cursor_home_def show_cursor_def putstr_def save_database_def disable_raw_mode_def)

lemma quit_app_success:
  assumes "\<forall>step. \<not> fails step" "old_settings (terminal a) = Some saved"
  shows "quit_app fails a = Raised SystemExit (shut_down saved a)"
  using assms
  by (simp add: quit_app_def attempt_simps shutdown_steps_def clear_screen_def shut_down_def
        move_cursor_home_def show_cursor_def putstr_def save_database_def disable_raw_mode_def)

lemma attempted_iff:
  assumes "attempted a = []"
  shows "ClearScreen \<in> set (attempted (state_of (quit_app fails a)))"
    and "MoveCursor \<in> set (attempted (state_of (quit_app fails a))) \<longleftrightarrow> \<not> fails ClearScreen"
    and "ShowCursor \<in> set (attempted (state_of (quit_app fails a)))
          \<longleftrightarrow> \<not> fails ClearScreen \<and> \<not> fails MoveCursor"
    and "SaveDatabase \<in> set (attempted (state_of (quit_app fails a)))
          \<longleftrightarrow> \<not> fails ClearScreen \<and> \<not> fails MoveCursor \<and> \<not> fails ShowCursor"
    and "DisableRawMode \<in> set (attempted (state_of (quit_app fails a)))
          \<longleftrightarrow> \<not> fails ClearScreen \<and> \<not> fails MoveCursor \<and> \<not> fails ShowCursor
              \<and> \<not> fails SaveDatabase"
  unfolding quit_app_attempted assms
  by (cases "fails ClearScreen"; cases "fails MoveCursor"; cases "fails ShowCursor";
      cases "fails SaveDatabase"; cases "fails DisableRawMode";
      simp add: shutdown_steps_def)+

lemma pop_one_screen:
  assumes "screen_stack a = [x]"
  shows "pop_screen_stack fails a = quit_app fails (a\<lparr>screen_stack := []\<rparr>)"
  using assms by (subst pop_screen_stack.simps) simp



text \<open>
  C2 as stated does not hold: nothing in \<open>quit_app\<close> catches an exception. When saving
  the data raises, the cursor has been shown but the terminal mode is not restored (the
  step is not attempted and the terminal stays in raw mode); when clearing the screen
  raises, no later step is attempted.
\<close>

theorem C2_later_steps_skipped_counterexample:
  "attempted (state_of (pop_screen_stack (only_fails SaveDatabase)
        (app_with [scr 0 LIST_SELECTION])))
     = [ClearScreen, MoveCursor, ShowCursor, SaveDatabase]
   \<and> DisableRawMode \<notin> set (attempted (state_of (pop_screen_stack (only_fails SaveDatabase)
        (app_with [scr 0 LIST_SELECTION]))))
   \<and> raw_mode (terminal (state_of (pop_screen_stack (only_fails SaveDatabase)
        (app_with [scr 0 LIST_SELECTION]))))
   \<and> attempted (state_of (pop_screen_stack (only_fails ClearScreen)
        (app_with [scr 0 LIST_SELECTION])))
     = [ClearScreen]"
  by (simp add: pop_one_screen app_with_def scr_def only_fails_def quit_app_def attempt_def
      clear_screen_def move_cursor_home_def show_cursor_def putstr_def raw_terminal_def)

text \<open>
  C2, amended. Shutdown runs its cleanup steps in the fixed order clear screen, move
  cursor, show cursor, persist, restore terminal mode, and a step is attempted exactly
  when every earlier step succeeded: the steps attempted are the steps up to and
  including the first that raises. When no step raises (and the terminal settings were
  saved at startup), every step is attempted, the control sequences are written, the
  data is saved, the saved terminal settings are restored, and \<open>exit()\<close> raises
  \<open>SystemExit\<close>. In every case shutdown ends by raising.
\<close>

theorem C2_shutdown_stops_at_first_failure:
  assumes "attempted a = []"
  shows "attempted (state_of (quit_app fails a)) =
           takeWhile (\<lambda>step. \<not> fails step) shutdown_steps
             @ take 1 (dropWhile (\<lambda>step. \<not> fails step) shutdown_steps)
       \<and> ClearScreen \<in> set (attempted (state_of (quit_app fails a)))
       \<and> (MoveCursor \<in> set (attempted (state_of (quit_app fails a)))
            \<longleftrightarrow> \<not> fails ClearScreen)
       \<and> (ShowCursor \<in> set (attempted (state_of (quit_app fails a)))
            \<longleftrightarrow> \<not> fails ClearScreen \<and> \<not> fails MoveCursor)
       \<and> (SaveDatabase \<in> set (attempted (state_of (quit_app fails a)))
            \<longleftrightarrow> \<not> fails ClearScreen \<and> \<not> fails MoveCursor \<and> \<not> fails ShowCursor)
       \<and> (DisableRawMode \<in> set (attempted (state_of (quit_app fails a)))
            \<longleftrightarrow> \<not> fails ClearScreen \<and> \<not> fails MoveCursor \<and> \<not> fails ShowCursor
                \<and> \<not> fails SaveDatabase)
       \<and> ((\<forall>step. \<not> fails step) \<and> old_settings (terminal a) = Some saved
            \<longrightarrow> quit_app fails a = Raised SystemExit (shut_down saved a))
       \<and> (\<exists>e a'. quit_app fails a = Raised e a')"
proof -
  note iff = attempted_iff [OF assms, of fails]
  have list: "attempted (state_of (quit_app fails a)) =
           takeWhile (\<lambda>step. \<not> fails step) shutdown_steps
             @ take 1 (dropWhile (\<lambda>step. \<not> fails step) shutdown_steps)"
    using quit_app_attempted [of fails a] assms by simp
  have ok: "quit_app fails a = Raised SystemExit (shut_down saved a)"
    if "(\<forall>step. \<not> fails step) \<and> old_settings (terminal a) = Some saved"
    using that quit_app_success [of fails a saved] by blast
  have raises: "\<exists>e a'. quit_app fails a = Raised e a'"
    using quit_app_raises [of fails a] by blast
  from list iff ok raises show ?thesis by blast
qed

theorem C2_shutdown_stops_at_first_failure_witness:
  "attempted (app_with []) = []
   \<and> old_settings (terminal (app_with [])) = Some \<lparr>icanon = True, echo = True\<rparr>
   \<and> quit_app never_fails (app_with [])
       = Raised SystemExit (shut_down \<lparr>icanon = True, echo = True\<rparr> (app_with []))
   \<and> attempted (state_of (quit_app never_fails (app_with []))) = shutdown_steps
   \<and> SaveDatabase \<notin> set (attempted (state_of (quit_app (only_fails MoveCursor) (app_with []))))"
proof -
  have h: "attempted (app_with []) = []" by (simp add: app_with_def)
  have o: "old_settings (terminal (app_with [])) = Some \<lparr>icanon = True, echo = True\<rparr>"
    by (simp add: app_with_def raw_terminal_def)
  have n: "\<forall>step. \<not> never_fails step" by (simp add: never_fails_def)
  note ok = C2_shutdown_stops_at_first_failure [OF h, of never_fails "\<lparr>icanon = True, echo = True\<rparr>"]
  note bad = C2_shutdown_stops_at_first_failure [OF h, of "only_fails MoveCursor" "\<lparr>icanon = True, echo = True\<rparr>"]
  have q: "quit_app never_fails (app_with [])
       = Raised SystemExit (shut_down \<lparr>icanon = True, echo = True\<rparr> (app_with []))"
    using ok n o by blast
  have all: "attempted (state_of (quit_app never_fails (app_with []))) = shutdown_steps"
    by (simp add: q shut_down_def h)
  have skipped: "SaveDatabase \<notin> set (attempted (state_of (quit_app (only_fails MoveCursor) (app_with []))))"
  proof -
    from bad have "SaveDatabase \<in> set (attempted (state_of (quit_app (only_fails MoveCursor) (app_with []))))
            \<longleftrightarrow> \<not> only_fails MoveCursor ClearScreen \<and> \<not> only_fails MoveCursor MoveCursor
                \<and> \<not> only_fails MoveCursor ShowCursor"
      by blast
    then show ?thesis by (simp add: only_fails_def)
  qed
  from h o q all skipped show ?thesis by blast
qed




section \<open>Hosted dialogs take every key, proofs\<close>

lemma refresh_lists_frame:
  "heap (refresh_lists s) = heap s" "children (refresh_lists s) = children s"
  "tab_order (refresh_lists s) = tab_order s" "scr_focus_index (refresh_lists s) = scr_focus_index s"
  "app_calls (refresh_lists s) = app_calls s" "dialog (refresh_lists s) = dialog s"
  "lf_focus_index (list_fields (refresh_lists s)) = lf_focus_index (list_fields s)"
  "lf_scroll_offset (list_fields (refresh_lists s)) = lf_scroll_offset (list_fields s)"
  by (simp_all add: refresh_lists_def)

text \<open>What none of the dialog callbacks of \<open>ListSelectionScreen\<close> changes.\<close>

lemma lss_callback_frame:
  assumes "lss_run_callback cb s = Inr s'"
  shows "heap s' = heap s \<and> children s' = children s \<and> tab_order s' = tab_order s
       \<and> scr_focus_index s' = scr_focus_index s \<and> app_calls s' = app_calls s
       \<and> lf_focus_index (list_fields s') = lf_focus_index (list_fields s)
       \<and> lf_scroll_offset (list_fields s') = lf_scroll_offset (list_fields s)
       \<and> dialog s' = None"
proof (cases cb)
  case CancelDelete
  with assms show ?thesis by (auto simp: cancel_delete_def)
next
  case PerformActualDelete
  with assms show ?thesis
    by (auto simp: perform_actual_delete_def refresh_lists_frame
        split: sum.splits option.splits)
qed

lemma tv_callback_frame:
  assumes "tv_run_callback cb s = Inr s'"
  shows "heap s' = heap s \<and> children s' = children s \<and> tab_order s' = tab_order s
       \<and> scr_focus_index s' = scr_focus_index s \<and> dialog s' = None
       \<and> (cb = ClearDialog \<longrightarrow> app_calls s' = app_calls s)
       \<and> (cb = PerformDeleteAllCompleted \<longrightarrow> app_calls s' = app_calls s @ [PopScreenStack])"
  using assms by (cases cb) auto

lemma tv_callback_returns: "\<exists>s'. tv_run_callback cb s = Inr s'"
  by (cases cb) auto

lemma same_focus:
  assumes "heap s' = heap s" "children s' = children s" "tab_order s' = tab_order s"
  shows "get_focusable_widgets s' = get_focusable_widgets s"
    and "get_focused_widget s' = get_focused_widget s"
    and "focus_invariant s' = focus_invariant s"
proof -
  show f: "get_focusable_widgets s' = get_focusable_widgets s"
    using assms by (simp add: get_focusable_widgets_def split: option.splits)
  show "get_focused_widget s' = get_focused_widget s"
    using assms(1) f by (simp add: get_focused_widget_def)
  show "focus_invariant s' = focus_invariant s"
    using assms(1) f by (simp add: focus_invariant_def focused_widgets_def)
qed


lemma and_consumed_Inr: "and_consumed r = Inr (s', handled) \<longleftrightarrow> r = Inr s' \<and> handled"
  by (cases r) (auto simp: and_consumed_def)

text \<open>
  The result of a dialog's \<open>process_input\<close>: the key is always consumed, and the screen
  is unchanged, or has the other button of the dialog selected, or is what one callback
  returned.
\<close>

lemma dialog_cases:
  assumes run: "Dialog_process_input call d key s = Inr (s', handled)"
  shows "handled \<and>
        (s' = s
         \<or> (\<exists>m c1 c2 i. s' = s\<lparr>dialog := Some (ConfirmationDialog m c1 c2 i)\<rparr>)
         \<or> (\<exists>m c1 c2. d = ConfirmationDialog m c1 c2 0 \<and> key = Keys_ENTER \<and> call c1 s = Inr s')
         \<or> (\<exists>m c1 c2 i. d = ConfirmationDialog m c1 c2 i \<and> (key = Keys_ENTER \<or> key = Keys_ESC)
               \<and> call c2 s = Inr s')
         \<or> (\<exists>m c. d = AlertDialog m c \<and> call c s = Inr s'))"
proof (cases d)
  case (ConfirmationDialog m c1 c2 i)
  show ?thesis
  proof (cases "key = Keys_LEFT \<or> key = Keys_RIGHT \<or> key = Keys_TAB")
    case True
    with run ConfirmationDialog
    have "s' = s\<lparr>dialog := Some (ConfirmationDialog m c1 c2 (1 - i))\<rparr>" "handled"
      by (simp_all add: Dialog_process_input_def)
    then show ?thesis by blast
  next
    case nav: False
    show ?thesis
    proof (cases "key = Keys_ENTER")
      case True
      with run ConfirmationDialog nav
      have r: "and_consumed (if i = 0 then call c1 s else call c2 s) = Inr (s', handled)"
        by (simp add: Dialog_process_input_def)
      show ?thesis
      proof (cases "i = 0")
        case True
        with r have "call c1 s = Inr s'" "handled" by (simp_all add: and_consumed_Inr)
        with True ConfirmationDialog \<open>key = Keys_ENTER\<close> show ?thesis by blast
      next
        case False
        with r have "call c2 s = Inr s'" "handled" by (simp_all add: and_consumed_Inr)
        with ConfirmationDialog \<open>key = Keys_ENTER\<close> show ?thesis by blast
      qed
    next
      case no_enter: False
      show ?thesis
      proof (cases "key = Keys_ESC")
        case True
        with run ConfirmationDialog nav no_enter
        have "and_consumed (call c2 s) = Inr (s', handled)"
          by (simp add: Dialog_process_input_def)
        then have "call c2 s = Inr s'" "handled" by (simp_all add: and_consumed_Inr)
        with ConfirmationDialog True show ?thesis by blast
      next
        case False
        with run ConfirmationDialog nav no_enter have "s' = s" "handled"
          by (simp_all add: Dialog_process_input_def)
        then show ?thesis by blast
      qed
    qed
  qed
next
  case (AlertDialog m c)
  show ?thesis
  proof (cases "key \<in> set [Keys_ENTER, Keys_ESC, Keys_SPACE]")
    case True
    with run AlertDialog have "and_consumed (call c s) = Inr (s', handled)"
      by (simp add: Dialog_process_input_def)
    then have "call c s = Inr s'" "handled" by (simp_all add: and_consumed_Inr)
    with AlertDialog show ?thesis by blast
  next
    case False
    with run AlertDialog have "s' = s" "handled"
      by (simp_all add: Dialog_process_input_def)
    then show ?thesis by blast
  qed
qed

lemma lss_dialog_frame:
  assumes "Dialog_process_input lss_run_callback d key s = Inr (s', handled)"
  shows "heap s' = heap s \<and> children s' = children s \<and> tab_order s' = tab_order s
       \<and> scr_focus_index s' = scr_focus_index s \<and> app_calls s' = app_calls s
       \<and> lf_focus_index (list_fields s') = lf_focus_index (list_fields s)
       \<and> lf_scroll_offset (list_fields s') = lf_scroll_offset (list_fields s)"
proof -
  from dialog_cases [OF assms] consider
      "s' = s"
    | m c1 c2 i where "s' = s\<lparr>dialog := Some (ConfirmationDialog m c1 c2 i)\<rparr>"
    | c where "lss_run_callback c s = Inr s'"
    by blast
  then show ?thesis
  proof cases
    case 1
    then show ?thesis by simp
  next
    case 2
    then show ?thesis by simp
  next
    case 3
    from lss_callback_frame [OF this] show ?thesis by blast
  qed
qed

lemma tv_dialog_frame:
  assumes "Dialog_process_input tv_run_callback
             (ConfirmationDialog m PerformDeleteAllCompleted ClearDialog i) key s = Inr (s', handled)"
  shows "heap s' = heap s \<and> children s' = children s \<and> tab_order s' = tab_order s
       \<and> scr_focus_index s' = scr_focus_index s
       \<and> (key \<noteq> Keys_ENTER \<longrightarrow> app_calls s' = app_calls s)
       \<and> (app_calls s' = app_calls s
           \<or> (key = Keys_ENTER \<and> i = 0 \<and> app_calls s' = app_calls s @ [PopScreenStack]))"
proof -
  from dialog_cases [OF assms] consider
      "s' = s"
    | m' c1 c2 j where "s' = s\<lparr>dialog := Some (ConfirmationDialog m' c1 c2 j)\<rparr>"
    | "i = 0" "key = Keys_ENTER" "tv_run_callback PerformDeleteAllCompleted s = Inr s'"
    | "tv_run_callback ClearDialog s = Inr s'"
    by auto
  then show ?thesis
  proof cases
    case 1
    then show ?thesis by simp
  next
    case 2
    then show ?thesis by simp
  next
    case 3
    then show ?thesis by auto
  next
    case 4
    then show ?thesis by auto
  qed
qed

lemma dialog_returns:
  assumes "\<And>cb. \<exists>s'. call cb s = Inr s'"
  shows "\<exists>s'. Dialog_process_input call d key s = Inr (s', True)"
proof -
  have ac: "\<exists>s'. and_consumed (call cb s) = Inr (s', True)" for cb
    using assms [of cb] by (auto simp: and_consumed_def)
  show ?thesis
  proof (cases d)
    case (ConfirmationDialog m c1 c2 i)
    then show ?thesis using ac [of c1] ac [of c2]
      by (simp add: Dialog_process_input_def)
  next
    case (AlertDialog m c)
    then show ?thesis using ac [of c]
      by (simp add: Dialog_process_input_def)
  qed
qed

lemma tv_dialog_returns:
  "\<exists>s'. Dialog_process_input tv_run_callback d key s = Inr (s', True)"
  by (rule dialog_returns) (rule tv_callback_returns)

lemma get_selected_ok:
  assumes "0 \<le> lf_focus_index (list_fields s)"
    and "list_all (\<lambda>l. task_list_obj l \<noteq> None) (lf_children (list_fields s))"
  shows "\<exists>r. get_selected_list_obj s = Inr r"
proof (cases "lf_children (list_fields s) = []")
  case True
  then show ?thesis by (simp add: get_selected_list_obj_def)
next
  case False
  let ?cs = "lf_children (list_fields s)"
  let ?i = "focus_index (load_list s)"
  have len: "0 < length ?cs" using False by simp
  have i: "0 \<le> ?i" "?i < int (length ?cs)"
    using assms(1) len by (auto simp: focus_index_def load_list_def Let_def)
  then have ix: "py_index ?cs ?i = Inr (?cs ! nat ?i)"
    by (simp add: py_index_def py_position_def)
  have "nat ?i < length ?cs" using i by simp
  then have "?cs ! nat ?i \<in> set ?cs" by (rule nth_mem)
  with assms(2) have "task_list_obj (?cs ! nat ?i) \<noteq> None" by (simp add: list_all_iff)
  then obtain tl where "task_list_obj (?cs ! nat ?i) = Some tl" by auto
  with False ix show ?thesis by (simp add: get_selected_list_obj_def)
qed

lemma lss_callback_returns:
  assumes "0 \<le> lf_focus_index (list_fields s)"
    and "list_all (\<lambda>l. task_list_obj l \<noteq> None) (lf_children (list_fields s))"
  shows "\<exists>s'. lss_run_callback cb s = Inr s'"
proof (cases cb)
  case CancelDelete
  then show ?thesis by simp
next
  case PerformActualDelete
  from get_selected_ok [OF assms] obtain r where "get_selected_list_obj s = Inr r" by blast
  with PerformActualDelete show ?thesis
    by (cases r) (simp_all add: perform_actual_delete_def)
qed

lemma lss_dialog_returns:
  assumes "0 \<le> lf_focus_index (list_fields s)"
    and "list_all (\<lambda>l. task_list_obj l \<noteq> None) (lf_children (list_fields s))"
  shows "\<exists>s'. Dialog_process_input lss_run_callback d key s = Inr (s', True)"
  by (rule dialog_returns) (rule lss_callback_returns [OF assms])


lemma store_load: "store_list (load_list s) s = s"
proof -
  have w: "\<lparr>w_x = w_x w, w_y = w_y w, w_width = w_width w, w_height = w_height w,
            is_focused = is_focused w, is_focusable = is_focusable w\<rparr> = w" for w :: widget
    by (cases w) simp
  have f: "\<lparr>lf_children = lf_children f, lf_scroll_offset = lf_scroll_offset f,
            lf_focus_index = lf_focus_index f\<rparr> = f" for f :: list_fields
    by (cases f) simp
  show ?thesis by (simp add: store_list_def load_list_def Let_def w f)
qed

lemma main_screen_eq: "main_screen = set_focus_by_index (ListSelectionScreen_build 80 24 two_lists) 0"
  by (simp add: main_screen_def ListSelectionScreen_init_def)

lemma unfocused_tab_order: "get_focusable_widgets (ListSelectionScreen_build 80 24 two_lists) = [21, 22, 23, 24, 25, 26]"
  by (simp add: get_focusable_widgets_def ListSelectionScreen_build_def refresh_lists_def)

lemma unfocused_none: "get_focused_widget (ListSelectionScreen_build 80 24 two_lists) = None"
  by (simp add: get_focused_widget_def unfocused_tab_order)
     (simp add: ListSelectionScreen_build_def refresh_lists_def Button_init_def)

lemma main_screen_focus:
  "get_focused_widget main_screen = Some 21"
  "get_focusable_widgets main_screen = [21, 22, 23, 24, 25, 26]"
proof -
  have ne: "get_focusable_widgets (ListSelectionScreen_build 80 24 two_lists) \<noteq> []" by (simp add: unfocused_tab_order)
  note m = move_focus_unfocused [OF ne unfocused_none disjI1 [OF refl]]
  have eq: "main_screen = move_focus (ListSelectionScreen_build 80 24 two_lists) 1"
    using m(1) by (simp add: main_screen_eq)
  show "get_focused_widget main_screen = Some 21"
    unfolding eq using m(3) by (simp add: unfocused_tab_order)
  show "get_focusable_widgets main_screen = [21, 22, 23, 24, 25, 26]"
    unfolding eq using m(5) by (simp add: unfocused_tab_order)
qed

lemma main_screen_fields:
  "dialog main_screen = None" "app_calls main_screen = []" "list_widget main_screen = 21"
  "lf_children (list_fields main_screen) =
     [(Label_init ''  Casa'')\<lparr>task_list_obj := Some (two_lists ! 0)\<rparr>,
      (Label_init ''  Trabalho'')\<lparr>task_list_obj := Some (two_lists ! 1)\<rparr>]"
  "lf_focus_index (list_fields main_screen) = 0"
  "is_focused (heap main_screen 21)"
  by (simp_all add: main_screen_def ListSelectionScreen_init_def ListSelectionScreen_build_def
      set_focus_by_index_def
      get_focusable_widgets_def get_focused_widget_def refresh_lists_def set_is_focused_def
      Let_def two_lists_def Button_init_def)


lemma routed_to_dialog:
  "(case r of Inl e \<Rightarrow> Inl e | Inr (s', handled) \<Rightarrow> Inr s') = map_sum id fst r"
  by (cases r) auto

text \<open>
  For contrast, the default handling of the same screen when no dialog is hosted: ESC,
  which the focused list does not consume, asks the application to pop the stack.
\<close>

lemma main_screen_list:
  "VerticalList_process_input (load_list main_screen) Keys_ESC = Inr (load_list main_screen, False)"
  by (simp add: VerticalList_process_input_def load_list_def main_screen_fields Let_def Keys_defs
      py_index_def py_position_def focus_index_def Widget_process_input_def)

lemma without_dialog_esc_pops:
  "ListSelectionScreen_process_input main_screen Keys_ESC =
     Inr (main_screen\<lparr>app_calls := [PopScreenStack]\<rparr>)"
proof -
  have offer: "lss_widget_input main_screen 21 Keys_ESC = Inr (main_screen, False)"
    by (simp add: lss_widget_input_def main_screen_fields main_screen_list store_load)
  have "TUIScreen_process_input lss_widget_input main_screen Keys_ESC =
          Inr (main_screen\<lparr>app_calls := app_calls main_screen @ [PopScreenStack]\<rparr>)"
    by (simp add: TUIScreen_process_input_def main_screen_focus offer)
       (simp add: Keys_defs)
  then show ?thesis
    by (simp add: ListSelectionScreen_process_input_def main_screen_fields Keys_defs)
qed

text \<open>
  C5. While a dialog is hosted, \<open>process_input\<close> of the hosting screen is the dialog's
  \<open>process_input\<close> and nothing else. On the list selection screen, whenever the call
  returns, no widget of the screen has changed (so the focus flags, the tab order and the
  focused widget are the same: no focus move, no focus cycling), the selection and the
  scroll offset of the list are the same (the key was not offered to the focused widget),
  and no call was made on the application (nothing is popped, for ESC or any other key);
  and the call does return when the list is well formed. On the task view screen, with
  the dialog it opens, the call always returns, the widgets and the focus are unchanged,
  and the application is called only by the dialog's own confirm callback on ENTER, never
  on ESC.
\<close>

theorem C5_dialog_takes_every_key:
  fixes s :: "'z list_selection_screen_scheme" and t :: "(tv_callback, 'y) hosting_screen_scheme"
  shows
  "(dialog s = Some d \<longrightarrow>
      ListSelectionScreen_process_input s key
        = map_sum id fst (Dialog_process_input lss_run_callback d key s)
      \<and> (\<forall>s'. ListSelectionScreen_process_input s key = Inr s' \<longrightarrow>
            heap s' = heap s
            \<and> get_focusable_widgets s' = get_focusable_widgets s
            \<and> get_focused_widget s' = get_focused_widget s
            \<and> scr_focus_index s' = scr_focus_index s
            \<and> lf_focus_index (list_fields s') = lf_focus_index (list_fields s)
            \<and> lf_scroll_offset (list_fields s') = lf_scroll_offset (list_fields s)
            \<and> app_calls s' = app_calls s)
      \<and> (0 \<le> lf_focus_index (list_fields s)
           \<and> list_all (\<lambda>l. task_list_obj l \<noteq> None) (lf_children (list_fields s))
          \<longrightarrow> (\<exists>s'. ListSelectionScreen_process_input s key = Inr s')))
   \<and> (dialog t = Some (ConfirmationDialog m PerformDeleteAllCompleted ClearDialog i) \<longrightarrow>
      (\<exists>t'. TaskViewScreen_process_input without_dialog t key = Inr t'
         \<and> Dialog_process_input tv_run_callback
              (ConfirmationDialog m PerformDeleteAllCompleted ClearDialog i) key t = Inr (t', True)
         \<and> heap t' = heap t
         \<and> get_focusable_widgets t' = get_focusable_widgets t
         \<and> get_focused_widget t' = get_focused_widget t
         \<and> scr_focus_index t' = scr_focus_index t
         \<and> (key \<noteq> Keys_ENTER \<longrightarrow> app_calls t' = app_calls t)
         \<and> (app_calls t' = app_calls t
              \<or> (key = Keys_ENTER \<and> i = 0 \<and> app_calls t' = app_calls t @ [PopScreenStack]))))"
proof (intro conjI impI allI)
  assume d: "dialog s = Some d"
  show "ListSelectionScreen_process_input s key
        = map_sum id fst (Dialog_process_input lss_run_callback d key s)"
    by (simp add: ListSelectionScreen_process_input_def d routed_to_dialog)
next
  fix s'
  assume d: "dialog s = Some d" and run: "ListSelectionScreen_process_input s key = Inr s'"
  from run d obtain handled
    where "Dialog_process_input lss_run_callback d key s = Inr (s', handled)"
    by (auto simp: ListSelectionScreen_process_input_def split: sum.splits)
  from lss_dialog_frame [OF this]
  have f: "heap s' = heap s" "children s' = children s" "tab_order s' = tab_order s"
    and rest: "scr_focus_index s' = scr_focus_index s" "app_calls s' = app_calls s"
      "lf_focus_index (list_fields s') = lf_focus_index (list_fields s)"
      "lf_scroll_offset (list_fields s') = lf_scroll_offset (list_fields s)"
    by blast+
  from f rest same_focus(1,2) [OF f]
  show "heap s' = heap s" "get_focusable_widgets s' = get_focusable_widgets s"
    "get_focused_widget s' = get_focused_widget s" "scr_focus_index s' = scr_focus_index s"
    "lf_focus_index (list_fields s') = lf_focus_index (list_fields s)"
    "lf_scroll_offset (list_fields s') = lf_scroll_offset (list_fields s)"
    "app_calls s' = app_calls s"
    by simp_all
next
  assume d: "dialog s = Some d"
    and wf: "0 \<le> lf_focus_index (list_fields s)
           \<and> list_all (\<lambda>l. task_list_obj l \<noteq> None) (lf_children (list_fields s))"
  from wf lss_dialog_returns [of s d key] obtain s'
    where "Dialog_process_input lss_run_callback d key s = Inr (s', True)" by blast
  then show "\<exists>s'. ListSelectionScreen_process_input s key = Inr s'"
    by (simp add: ListSelectionScreen_process_input_def d)
next
  assume d: "dialog t = Some (ConfirmationDialog m PerformDeleteAllCompleted ClearDialog i)"
  from tv_dialog_returns obtain t'
    where r: "Dialog_process_input tv_run_callback
                (ConfirmationDialog m PerformDeleteAllCompleted ClearDialog i) key t = Inr (t', True)"
    by blast
  have run: "TaskViewScreen_process_input without_dialog t key = Inr t'"
    by (simp add: TaskViewScreen_process_input_def d r)
  from tv_dialog_frame [OF r]
  have f: "heap t' = heap t" "children t' = children t" "tab_order t' = tab_order t"
    and rest: "scr_focus_index t' = scr_focus_index t"
      "key \<noteq> Keys_ENTER \<longrightarrow> app_calls t' = app_calls t"
      "app_calls t' = app_calls t
         \<or> (key = Keys_ENTER \<and> i = 0 \<and> app_calls t' = app_calls t @ [PopScreenStack])"
    by blast+
  from run r f(1) same_focus(1,2) [OF f] rest
  show "\<exists>t'. TaskViewScreen_process_input without_dialog t key = Inr t'
         \<and> Dialog_process_input tv_run_callback
              (ConfirmationDialog m PerformDeleteAllCompleted ClearDialog i) key t = Inr (t', True)
         \<and> heap t' = heap t
         \<and> get_focusable_widgets t' = get_focusable_widgets t
         \<and> get_focused_widget t' = get_focused_widget t
         \<and> scr_focus_index t' = scr_focus_index t
         \<and> (key \<noteq> Keys_ENTER \<longrightarrow> app_calls t' = app_calls t)
         \<and> (app_calls t' = app_calls t
              \<or> (key = Keys_ENTER \<and> i = 0 \<and> app_calls t' = app_calls t @ [PopScreenStack]))"
    by blast
qed

theorem C5_dialog_takes_every_key_witness:
  "dialog main_screen_asking
     = Some (ConfirmationDialog (confirm_message ''Casa'') PerformActualDelete CancelDelete 0)
   \<and> ListSelectionScreen_process_input main_screen_asking Keys_ESC = Inr main_screen
   \<and> app_calls main_screen = app_calls main_screen_asking
   \<and> app_calls main_screen = []
   \<and> get_focused_widget main_screen = get_focused_widget main_screen_asking
   \<and> get_focused_widget main_screen = Some 21
   \<and> ListSelectionScreen_process_input main_screen Keys_ESC
       = Inr (main_screen\<lparr>app_calls := [PopScreenStack]\<rparr>)
   \<and> dialog task_view_asking
       = Some (ConfirmationDialog delete_all_message PerformDeleteAllCompleted ClearDialog 0)
   \<and> (\<exists>t'. TaskViewScreen_process_input unused_rest task_view_asking Keys_ESC = Inr t'
          \<and> app_calls t' = app_calls task_view_asking)"
proof -
  let ?d = "ConfirmationDialog (confirm_message ''Casa'') PerformActualDelete CancelDelete 0"
  have d: "dialog main_screen_asking = Some ?d" by (simp add: main_screen_asking_def)
  have closed: "main_screen_asking\<lparr>dialog := None\<rparr> = main_screen"
    using main_screen_fields(1) by (simp add: main_screen_asking_def)
  have esc: "Dialog_process_input lss_run_callback ?d Keys_ESC main_screen_asking
               = Inr (main_screen, True)"
    by (simp add: Dialog_process_input_def and_consumed_def cancel_delete_def closed Keys_defs)
  note c5 = C5_dialog_takes_every_key [where s = main_screen_asking and d = ?d and key = Keys_ESC
      and t = task_view_asking and m = delete_all_message and i = 0
      and without_dialog = unused_rest]
  from c5 d have routed: "ListSelectionScreen_process_input main_screen_asking Keys_ESC
        = map_sum id fst (Dialog_process_input lss_run_callback ?d Keys_ESC main_screen_asking)"
    by blast
  then have run: "ListSelectionScreen_process_input main_screen_asking Keys_ESC = Inr main_screen"
    by (simp add: esc)
  from c5 d run have same: "app_calls main_screen = app_calls main_screen_asking"
    "get_focused_widget main_screen = get_focused_widget main_screen_asking"
    by blast+
  have td: "dialog task_view_asking
       = Some (ConfirmationDialog delete_all_message PerformDeleteAllCompleted ClearDialog 0)"
    by (simp add: task_view_asking_def confirm_delete_all_completed_def)
  have ne: "Keys_ESC \<noteq> Keys_ENTER" by (simp add: Keys_defs)
  from c5 td ne
  have tv: "\<exists>t'. TaskViewScreen_process_input unused_rest task_view_asking Keys_ESC = Inr t'
          \<and> app_calls t' = app_calls task_view_asking"
    by blast
  from d run same main_screen_fields(2) main_screen_focus(1) without_dialog_esc_pops td tv
  show ?thesis by blast
qed

end
